theory Spec2Isabelle
  imports Complex_Main
begin

section \<open>Python values, exceptions and string helpers\<close>

text \<open>
  The two modules under study are \<^verbatim>\<open>src/case/jury.py\<close> (class \<^verbatim>\<open>Jury\<close>) and
  \<^verbatim>\<open>src/case/advocate.py\<close> (class \<^verbatim>\<open>AdvocateAgent\<close>).  Both call collaborators
  that live outside the repository: the language-model predictor of \<^verbatim>\<open>dspy\<close>, the
  standard library's \<^verbatim>\<open>json.loads\<close>, \<^verbatim>\<open>repr\<close> and \<^verbatim>\<open>random\<close>.  The predictor,
  \<^verbatim>\<open>json.loads\<close>, \<^verbatim>\<open>repr\<close> and the raw random numbers are parameters of the model,
  so every theorem below holds for whatever they return.

  A Python \<^verbatim>\<open>str\<close> is the list of its Unicode code points, the numbers that
  \<^verbatim>\<open>ord\<close> returns (never negative).  \<^verbatim>\<open>str.strip\<close> removes the 29 code points
  for which \<^verbatim>\<open>str.isspace\<close> holds.  \<^verbatim>\<open>str.upper\<close> maps each code point to one or
  more code points: below 256 by the table of CPython, written out here; from 256 on by
  a further parameter \<open>wu\<close> of the model, which stands for the rest of that table.
\<close>

type_synonym codepoint = int

type_synonym pystr = "codepoint list"

text \<open>The code points of a literal.\<close>

definition py :: "string \<Rightarrow> pystr" where
  "py s = map of_char s"

datatype exn =
    ValueError | AttributeError | KeyError | IndexError | JSONDecodeError
  | OtherError string

text \<open>The Python objects that can occur as evidence: what \<^verbatim>\<open>json.loads\<close> produces and
  what the advocate hands over.  A \<^verbatim>\<open>dict\<close> is the list of its items in insertion order.\<close>

datatype pyval =
    PNone
  | PBool bool
  | PInt int
  | PFloat rat
  | PStr pystr
  | PList "pyval list"
  | PDict "(pyval \<times> pyval) list"

definition NL :: codepoint where
  "NL = 10"

text \<open>\<^verbatim>\<open>str.isspace\<close> of one code point: the whole list of CPython.\<close>

definition is_space :: "codepoint \<Rightarrow> bool" where
  "is_space c =
     (if c < 256 then
        (9 \<le> c \<and> c \<le> 13) \<or> (28 \<le> c \<and> c \<le> 32) \<or> c = 0x85 \<or> c = 0xA0
      else
        c = 0x1680 \<or> (0x2000 \<le> c \<and> c \<le> 0x200A) \<or> c = 0x2028 \<or> c = 0x2029
        \<or> c = 0x202F \<or> c = 0x205F \<or> c = 0x3000)"

definition strip :: "pystr \<Rightarrow> pystr" where
  "strip s = rev (dropWhile is_space (rev (dropWhile is_space s)))"

text \<open>
  \<^verbatim>\<open>str.upper\<close> of one code point below 256: a to z and the Latin-1 letters
  U+00E0 to U+00FE (but the division sign U+00F7) move down by 32, the micro sign U+00B5
  becomes U+039C, the sharp s U+00DF becomes SS, U+00FF becomes U+0178, and every other
  code point is unchanged, the lowercase ordinal indicators U+00AA and U+00BA among them.
\<close>

definition upper_latin1 :: "codepoint \<Rightarrow> pystr" where
  "upper_latin1 c =
     (if 97 \<le> c \<and> c \<le> 122 then [c - 32]
      else if c = 0xB5 then [0x39C]
      else if c = 0xDF then [0x53, 0x53]
      else if 0xE0 \<le> c \<and> c \<le> 0xFE \<and> c \<noteq> 0xF7 then [c - 32]
      else if c = 0xFF then [0x178]
      else [c])"

definition upper :: "(codepoint \<Rightarrow> pystr) \<Rightarrow> pystr \<Rightarrow> pystr" where
  "upper wu s = concat (map (\<lambda>c. if c < 256 then upper_latin1 c else wu c) s)"



text \<open>\<^verbatim>\<open>sep.join(parts)\<close>\<close>

fun join :: "pystr \<Rightarrow> pystr list \<Rightarrow> pystr" where
  "join sep [] = []"
| "join sep [p] = p"
| "join sep (p # q # ps) = p @ sep @ join sep (q # ps)"

text \<open>\<^verbatim>\<open>s.split(sep)\<close> for a one-character separator: never an empty list.\<close>

fun split_on :: "codepoint \<Rightarrow> pystr \<Rightarrow> pystr list" where
  "split_on sep [] = [] # []"
| "split_on sep (c # cs) =
     (if c = sep then [] # split_on sep cs
      else (case split_on sep cs of
              [] \<Rightarrow> [c] # []
            | p # ps \<Rightarrow> (c # p) # ps))"

text \<open>Decimal text of a natural number, as an f-string prints it.\<close>

definition digit_char :: "nat \<Rightarrow> codepoint" where
  "digit_char d = 48 + int d"

fun dec :: "nat \<Rightarrow> pystr" where
  "dec n = (if n < 10 then [digit_char n] else dec (n div 10) @ [digit_char (n mod 10)])"

text \<open>\<^verbatim>\<open>d.get(key, default)\<close> for a string key.\<close>

definition dict_get :: "(pyval \<times> pyval) list \<Rightarrow> pystr \<Rightarrow> pyval \<Rightarrow> pyval" where
  "dict_get d k dflt = (case map_of d (PStr k) of Some v \<Rightarrow> v | None \<Rightarrow> dflt)"

text \<open>\<^verbatim>\<open>str(x)\<close>, which an f-string applies to a field: a \<^verbatim>\<open>str\<close> is itself, every
  other object of \<^typ>\<open>pyval\<close> prints as its \<^verbatim>\<open>repr\<close>.\<close>

definition py_str :: "(pyval \<Rightarrow> pystr) \<Rightarrow> pyval \<Rightarrow> pystr" where
  "py_str repr v = (case v of PStr s \<Rightarrow> s | _ \<Rightarrow> repr v)"


section \<open>The jury: \<^verbatim>\<open>jury.py\<close>\<close>

subsection \<open>Persona registry\<close>

definition LEGAL_PERSONAS :: "(pystr \<times> pystr) list" where
  "LEGAL_PERSONAS =
    [(py ''The Strict Textualist'',
      py (''You are a Strict Textualist following the motto that the text is the law. '' @
          ''Analyze provided evidence only. Do not use outside knowledge. '' @
          ''If evidence does not explicitly state the answer, reject the option. '' @
          ''Catch 'hallucinations' where the model invents rules not found in text.'')),
     (py ''The Devil's Advocate'',
      py (''You are a Devil's Advocate. Your goal is to find loopholes in the argument. '' @
          ''Look for exceptions, loopholes, or missing conditions in evidence. '' @
          ''Be highly skeptical. If an answer looks too simple, check for missing conditions.'')),
     (py ''The Equity Advocate'',
      py (''You are an Equity Advocate. You view law as a tool for fairness. '' @
          ''In housing/tort cases, consider the vulnerable party for e.g., the tenant. '' @
          ''Interpret ambiguities to prevent unjust outcomes for the vulnerable party.'')),
     (py ''The Legal Realist'',
      py (''You are a Legal Realist (Pragmatist). You care about practical consequences. '' @
          ''If literal text leads to absurd results, reject it. '' @
          ''Choose the option that represents a workable, sensible application of rules.'')),
     (py ''The Precedent Loyalist'',
      py (''You are a Precedent Loyalist. You care about consistency. '' @
          ''Compare facts in 'Question' strictly against facts in 'Evidence' (Case Law). '' @
          ''If facts don't match, the rule does not apply. Prevent false analogies.''))]"

definition available_keys :: "pystr list" where
  "available_keys = map fst LEGAL_PERSONAS"

subsection \<open>Evidence formatting (lines 83 to 97)\<close>

text \<open>
  \<^verbatim>\<open>loads\<close> stands for \<^verbatim>\<open>json.loads\<close>: \<open>Inr v\<close> is the decoded object and \<open>Inl e\<close> the
  exception it raised.  Only \<^verbatim>\<open>json.JSONDecodeError\<close> is caught by the source; calling
  \<^verbatim>\<open>.get\<close> on a decoded object that is not a \<^verbatim>\<open>dict\<close> raises \<^verbatim>\<open>AttributeError\<close>
  outside any handler.
\<close>

definition evidence_content ::
  "(pystr \<Rightarrow> exn + pyval) \<Rightarrow> (pyval \<Rightarrow> pystr) \<Rightarrow> pyval \<Rightarrow> exn + pyval" where
  "evidence_content loads repr ev =
     (case ev of
        PStr s \<Rightarrow>
          (case loads s of
             Inr ev_json \<Rightarrow>
               (case ev_json of
                  PDict d \<Rightarrow> Inr (dict_get d (py ''contents'') (PStr s))
                | _ \<Rightarrow> Inl AttributeError)
           | Inl e \<Rightarrow> (if e = JSONDecodeError then Inr (PStr s) else Inl e))
      | PDict d \<Rightarrow>
          Inr (dict_get d (py ''contents'') (dict_get d (py ''text'') (PStr (repr ev))))
      | _ \<Rightarrow> Inr (PStr []))"

fun format_evidence ::
  "(pystr \<Rightarrow> exn + pyval) \<Rightarrow> (pyval \<Rightarrow> pystr) \<Rightarrow> nat \<Rightarrow> pyval list \<Rightarrow> pystr
     \<Rightarrow> exn + pystr" where
  "format_evidence loads repr i [] evidence_text = Inr evidence_text"
| "format_evidence loads repr i (ev # evs) evidence_text =
     (case evidence_content loads repr ev of
        Inl e \<Rightarrow> Inl e
      | Inr content \<Rightarrow>
          format_evidence loads repr (i + 1) evs
            (evidence_text @ py ''[Document '' @ dec (i + 1) @ py ''] '' @ py_str repr content @ [NL]))"

text \<open>The loop of lines 83 to 97, started on the header text and document number 1.\<close>

definition formatted_evidence ::
  "(pystr \<Rightarrow> exn + pyval) \<Rightarrow> (pyval \<Rightarrow> pystr) \<Rightarrow> pyval list \<Rightarrow> exn + pystr" where
  "formatted_evidence loads repr evidence_list =
     format_evidence loads repr 0 evidence_list ([NL] @ py '' Evidence - '')"

definition options_text :: "(pystr \<times> pystr) list \<Rightarrow> pystr" where
  "options_text choices = join [NL] (map (\<lambda>(k, v). k @ py '': '' @ v) choices)"

subsection \<open>Jury selection (lines 102 to 104)\<close>

text \<open>
  \<^verbatim>\<open>random.sample(population, k)\<close> of CPython: \<^verbatim>\<open>ValueError\<close> unless \<open>0 \<le> k \<le> n\<close>; a
  population of at most 21 elements (the registry has 5) is sampled from a pool, each
  draw \<^verbatim>\<open>j = randbelow(n - i)\<close> taking \<^verbatim>\<open>pool[j]\<close> and moving \<^verbatim>\<open>pool[n - i - 1]\<close> into
  the vacancy.  The generator is the stream of its raw numbers; the \<open>i\<close>-th draw below
  a bound is the \<open>i\<close>-th raw number reduced below that bound, so every run of
  \<^verbatim>\<open>randbelow\<close> is the run of some stream.  The bound is never 0: the loop runs
  \<open>k \<le> n\<close> times.
\<close>

type_synonym rng = "nat \<Rightarrow> nat"

definition randbelow :: "rng \<Rightarrow> nat \<Rightarrow> nat \<times> rng" where
  "randbelow g n = (g 0 mod n, \<lambda>i. g (Suc i))"

fun sample_pool :: "rng \<Rightarrow> 'a list \<Rightarrow> nat \<Rightarrow> nat \<Rightarrow> 'a list" where
  "sample_pool g pool m 0 = []"
| "sample_pool g pool m (Suc t) =
     (case randbelow g m of
        (j, g') \<Rightarrow> pool ! j # sample_pool g' (pool[j := pool ! (m - 1)]) (m - 1) t)"

definition random_sample :: "rng \<Rightarrow> 'a list \<Rightarrow> int \<Rightarrow> exn + 'a list" where
  "random_sample g population k =
     (let n = length population
      in if \<not> (0 \<le> k \<and> k \<le> int n) then Inl ValueError
         else Inr (sample_pool g population n (nat k)))"

definition selected_names :: "rng \<Rightarrow> int \<Rightarrow> exn + pystr list" where
  "selected_names g num_arbiters =
     random_sample g available_keys (min num_arbiters (int (length available_keys)))"

subsection \<open>Deliberation loop (lines 115 to 146)\<close>

record prediction =
  pred_reasoning :: pystr
  pred_vote :: pystr

record ballot =
  persona :: pystr
  vote :: "pystr option"
  reasoning :: pystr

text \<open>
  The predictor \<^verbatim>\<open>dspy.ChainOfThought(ArbiterDecision)\<close> of line 112 gets persona
  description, question, options and evidence.  \<open>Inr pred\<close> is a prediction with the
  two output fields of the signature, both strings; \<open>Inl e\<close> is any \<^verbatim>\<open>Exception\<close>
  raised inside the \<^verbatim>\<open>try\<close> block before the vote is recorded (by the call, or by
  \<^verbatim>\<open>pred.vote.strip()\<close> on a vote that is no string), which line 145 catches.  Within
  one call of \<^verbatim>\<open>synthesize\<close> the selected personas are distinct, so a function of the
  description covers every sequence of answers.  The \<^verbatim>\<open>print\<close> calls are left out.
\<close>

type_synonym predictor = "pystr \<Rightarrow> pystr \<Rightarrow> pystr \<Rightarrow> pystr \<Rightarrow> exn + prediction"

definition has_key :: "(pystr \<times> pystr) list \<Rightarrow> pystr \<Rightarrow> bool" where
  "has_key choices k = (k \<in> set (map fst choices))"

text \<open>Lines 127 to 134: the first character of the trimmed, upper-cased vote that is a
  key of \<^verbatim>\<open>choices\<close>.\<close>

definition clean_vote ::
  "(codepoint \<Rightarrow> pystr) \<Rightarrow> (pystr \<times> pystr) list \<Rightarrow> pystr \<Rightarrow> pystr option" where
  "clean_vote wu choices v =
     map_option (\<lambda>c. [c]) (find (\<lambda>c. has_key choices [c]) (upper wu (strip v)))"

definition juror ::
  "(codepoint \<Rightarrow> pystr) \<Rightarrow> predictor \<Rightarrow> pystr \<Rightarrow> (pystr \<times> pystr) list \<Rightarrow> pystr \<Rightarrow> pystr \<Rightarrow> pystr \<Rightarrow> pystr
     \<Rightarrow> pystr list \<times> ballot list \<Rightarrow> pystr list \<times> ballot list" where
  "juror wu predict question choices opts evidence_text name desc st =
     (case st of (votes, logs) \<Rightarrow>
        (case predict desc question opts evidence_text of
           Inl e \<Rightarrow> (votes, logs)
         | Inr pred \<Rightarrow>
             (let cv = clean_vote wu choices (pred_vote pred)
              in ((case cv of Some c \<Rightarrow> votes @ [c] | None \<Rightarrow> votes),
                  logs @ [\<lparr>persona = name, vote = cv, reasoning = pred_reasoning pred\<rparr>]))))"

fun deliberate ::
  "(codepoint \<Rightarrow> pystr) \<Rightarrow> predictor \<Rightarrow> pystr \<Rightarrow> (pystr \<times> pystr) list \<Rightarrow> pystr \<Rightarrow> pystr \<Rightarrow> pystr list
     \<Rightarrow> pystr list \<times> ballot list \<Rightarrow> exn + (pystr list \<times> ballot list)" where
  "deliberate wu predict question choices opts evidence_text [] st = Inr st"
| "deliberate wu predict question choices opts evidence_text (name # names) st =
     (case map_of LEGAL_PERSONAS name of
        None \<Rightarrow> Inl KeyError
      | Some desc \<Rightarrow>
          deliberate wu predict question choices opts evidence_text names
            (juror wu predict question choices opts evidence_text name desc st))"

subsection \<open>Majority vote (lines 149 to 166)\<close>

text \<open>\<^verbatim>\<open>Counter(votes)\<close>: a \<^verbatim>\<open>dict\<close> keeps each key at the place of its first insertion.\<close>

fun counter_inc :: "'a \<Rightarrow> ('a \<times> nat) list \<Rightarrow> ('a \<times> nat) list" where
  "counter_inc x [] = [(x, 1)]"
| "counter_inc x ((k, n) # kvs) =
     (if k = x then (k, n + 1) # kvs else (k, n) # counter_inc x kvs)"

definition Counter :: "'a list \<Rightarrow> ('a \<times> nat) list" where
  "Counter xs = foldl (\<lambda>c x. counter_inc x c) [] xs"

text \<open>\<^verbatim>\<open>most_common(1)\<close> is \<^verbatim>\<open>heapq.nlargest(1, items, key=count)\<close>, that is \<^verbatim>\<open>max\<close>: the
  running best is replaced only by a strictly larger count.\<close>

fun max_by_count :: "('a \<times> nat) \<Rightarrow> ('a \<times> nat) list \<Rightarrow> ('a \<times> nat)" where
  "max_by_count best [] = best"
| "max_by_count best (x # xs) = max_by_count (if snd best < snd x then x else best) xs"

definition most_common1 :: "('a \<times> nat) list \<Rightarrow> ('a \<times> nat) list" where
  "most_common1 items = (case items of [] \<Rightarrow> [] | x # xs \<Rightarrow> [max_by_count x xs])"

text \<open>\<^verbatim>\<open>round(x, 2)\<close>: the nearest multiple of 1/100, a tie going to the even one.
  The confidence is a quotient of counts, modelled as a rational number.\<close>

definition py_round2 :: "rat \<Rightarrow> rat" where
  "py_round2 x =
     (let y = x * 100; f = \<lfloor>y\<rfloor>; d = y - of_int f
      in of_int (if d < 1 / 2 then f else if 1 / 2 < d then f + 1
                 else if even f then f else f + 1) / 100)"

record verdict =
  final_verdict :: "pystr option"
  confidence :: rat
  vote_breakdown :: "(pystr \<times> nat) list"
  juror_deliberations :: "ballot list"

definition tally :: "pystr list \<Rightarrow> ballot list \<Rightarrow> exn + verdict" where
  "tally votes logs =
     (if votes = [] then
        Inr \<lparr>final_verdict = None, confidence = 0, vote_breakdown = [],
             juror_deliberations = logs\<rparr>
      else
        (case most_common1 (Counter votes) of
           [] \<Rightarrow> Inl IndexError
         | (winner, win_count) # _ \<Rightarrow>
             Inr \<lparr>final_verdict = Some winner,
                  confidence = py_round2 (of_nat win_count / of_nat (length votes)),
                  vote_breakdown = Counter votes,
                  juror_deliberations = logs\<rparr>))"

subsection \<open>\<^verbatim>\<open>Jury.synthesize\<close>\<close>

definition synthesize ::
  "(pystr \<Rightarrow> exn + pyval) \<Rightarrow> (pyval \<Rightarrow> pystr) \<Rightarrow> (codepoint \<Rightarrow> pystr) \<Rightarrow> rng \<Rightarrow> predictor
     \<Rightarrow> pystr \<Rightarrow> (pystr \<times> pystr) list \<Rightarrow> pyval list \<Rightarrow> int \<Rightarrow> exn + verdict" where
  "synthesize loads repr wu g predict question choices evidence_list num_arbiters =
     (case formatted_evidence loads repr evidence_list of
        Inl e \<Rightarrow> Inl e
      | Inr evidence_text \<Rightarrow>
          (case selected_names g num_arbiters of
             Inl e \<Rightarrow> Inl e
           | Inr names \<Rightarrow>
               (case deliberate wu predict question choices (options_text choices)
                       evidence_text names ([], []) of
                  Inl e \<Rightarrow> Inl e
                | Inr (votes, logs) \<Rightarrow> tally votes logs)))"

section \<open>The advocate: \<^verbatim>\<open>advocate.py\<close>\<close>

text \<open>The dictionary with the keys \<^verbatim>\<open>text\<close>, \<^verbatim>\<open>source\<close> and \<^verbatim>\<open>score\<close> of line 171.\<close>

record evidence_item =
  item_text :: pyval
  item_source :: pystr
  item_score :: rat

text \<open>\<^verbatim>\<open>xs[:k]\<close>: a negative bound counts from the end.\<close>

definition py_slice_to :: "'a list \<Rightarrow> int \<Rightarrow> 'a list" where
  "py_slice_to xs k =
     (if 0 \<le> k then take (nat k) xs else take (nat (int (length xs) + k)) xs)"

text \<open>
  \<^verbatim>\<open>AdvocateAgent.retrieve\<close>.  \<^verbatim>\<open>self.react_agent\<close> is \<open>None\<close> when no agent was
  built; otherwise it maps the hypothesis to the \<^verbatim>\<open>evidence\<close> field of its prediction,
  \<open>Inl e\<close> being any exception raised inside the \<^verbatim>\<open>try\<close> block, which the handler
  turns into the empty list.
\<close>

definition retrieve ::
  "(pyval \<Rightarrow> pystr) \<Rightarrow> (pystr \<Rightarrow> exn + pyval) option \<Rightarrow> pystr \<Rightarrow> int
     \<Rightarrow> evidence_item list" where
  "retrieve repr react_agent hypothesis k =
     (case react_agent of
        None \<Rightarrow> []
      | Some agent \<Rightarrow>
          (case agent hypothesis of
             Inl e \<Rightarrow> []
           | Inr evidence_text \<Rightarrow>
               (let passages =
                      (case evidence_text of
                         PStr s \<Rightarrow> map PStr (filter (\<lambda>p. strip p \<noteq> []) (split_on NL s))
                       | PList l \<Rightarrow> l
                       | _ \<Rightarrow> [PStr (py_str repr evidence_text)])
                in map (\<lambda>p. \<lparr>item_text = p, item_source = py ''dspy_react'', item_score = 1\<rparr>)
                     (py_slice_to passages k))))"

section \<open>Vocabulary of the statements\<close>

text \<open>The record that lines 139 to 143 append for one persona, if its predictor call
  returns: \<open>None\<close> when the call raises (or the name is not in the registry).\<close>

definition ballot_of ::
  "(codepoint \<Rightarrow> pystr) \<Rightarrow> predictor \<Rightarrow> pystr \<Rightarrow> (pystr \<times> pystr) list \<Rightarrow> pystr \<Rightarrow> pystr \<Rightarrow> pystr
     \<Rightarrow> ballot option" where
  "ballot_of wu predict question choices opts evidence_text name =
     (case map_of LEGAL_PERSONAS name of
        None \<Rightarrow> None
      | Some desc \<Rightarrow>
          (case predict desc question opts evidence_text of
             Inl e \<Rightarrow> None
           | Inr pred \<Rightarrow>
               Some \<lparr>persona = name, vote = clean_vote wu choices (pred_vote pred),
                     reasoning = pred_reasoning pred\<rparr>))"

text \<open>The ballots of a list of personas, in order, and the votes cast on them.\<close>

definition ballots ::
  "(codepoint \<Rightarrow> pystr) \<Rightarrow> predictor \<Rightarrow> pystr \<Rightarrow> (pystr \<times> pystr) list \<Rightarrow> pystr \<Rightarrow> pystr list
     \<Rightarrow> ballot list" where
  "ballots wu predict question choices evidence_text names =
     List.map_filter (ballot_of wu predict question choices (options_text choices) evidence_text)
       names"

definition cast_votes :: "ballot list \<Rightarrow> pystr list" where
  "cast_votes logs = List.map_filter vote logs"


section \<open>Sample inputs\<close>

text \<open>The choices of the first mock trial in the \<^verbatim>\<open>__main__\<close> block of \<^verbatim>\<open>jury.py\<close>.\<close>

definition case_1_choices :: "(pystr \<times> pystr) list" where
  "case_1_choices =
     [(py ''A'', py ''Involuntary manslaughter''),
      (py ''B'', py ''Voluntary manslaughter''),
      (py ''C'', py ''Murder''),
      (py ''D'', py ''None of the above'')]"



text \<open>A stand-in for the upper-casing of the code points from 256 on, which leaves them
  as they are; no sample text holds such a code point.\<close>

definition mock_wide_upper :: "codepoint \<Rightarrow> pystr" where
  "mock_wide_upper c = [c]"

text \<open>A generator whose every draw is 0: it picks the Textualist, then the Precedent
  Loyalist, the Legal Realist, the Equity Advocate and the Devil's Advocate.\<close>

definition first_draws :: rng where
  "first_draws = (\<lambda>i. 0)"

text \<open>A predictor that answers by persona; the call for the Devil's Advocate raises.\<close>

definition mock_predict :: predictor where
  "mock_predict desc question opts evidence_text =
     (case find (\<lambda>entry. snd entry = desc) LEGAL_PERSONAS of
        None \<Rightarrow> Inl (OtherError ''unknown persona'')
      | Some entry \<Rightarrow>
          (if fst entry = (py ''The Strict Textualist'') then
             Inr \<lparr>pred_reasoning = py ''The text says so.'',
                  pred_vote = py ''  b) because...'' @ [NL]\<rparr>
           else if fst entry = (py ''The Precedent Loyalist'') then
             Inr \<lparr>pred_reasoning = py ''The facts match.'', pred_vote = py ''B''\<rparr>
           else if fst entry = (py ''The Legal Realist'') then
             Inr \<lparr>pred_reasoning = py ''It is workable.'', pred_vote = py ''a''\<rparr>
           else if fst entry = (py ''The Equity Advocate'') then
             Inr \<lparr>pred_reasoning = py ''It is unclear.'', pred_vote = py ''Not sure''\<rparr>
           else Inl (OtherError ''timeout'')))"

text \<open>The verdicts that a jury of three and a jury of five reach with it on
  \<^const>\<open>case_1_choices\<close>.\<close>

definition mock_ballots_3 :: "ballot list" where
  "mock_ballots_3 =
     [\<lparr>persona = py ''The Strict Textualist'', vote = Some (py ''B''),
        reasoning = py ''The text says so.''\<rparr>,
      \<lparr>persona = py ''The Precedent Loyalist'', vote = Some (py ''B''),
        reasoning = py ''The facts match.''\<rparr>,
      \<lparr>persona = py ''The Legal Realist'', vote = Some (py ''A''),
        reasoning = py ''It is workable.''\<rparr>]"

definition mock_verdict_3 :: verdict where
  "mock_verdict_3 =
     \<lparr>final_verdict = Some (py ''B''), confidence = 67 / 100,
      vote_breakdown = [(py ''B'', 2), (py ''A'', 1)],
      juror_deliberations = mock_ballots_3\<rparr>"

definition mock_verdict_5 :: verdict where
  "mock_verdict_5 =
     \<lparr>final_verdict = Some (py ''B''), confidence = 67 / 100,
      vote_breakdown = [(py ''B'', 2), (py ''A'', 1)],
      juror_deliberations =
        mock_ballots_3 @
        [\<lparr>persona = py ''The Equity Advocate'', vote = None,
           reasoning = py ''It is unclear.''\<rparr>]\<rparr>"




definition unsure_predict :: predictor where
  "unsure_predict desc question opts evidence_text =
     Inr \<lparr>pred_reasoning = py ''It is unclear.'', pred_vote = py ''Not sure''\<rparr>"

text \<open>Three values of \<^verbatim>\<open>json.loads\<close> and one of \<^verbatim>\<open>repr\<close>; no other entry of these
  tables is used.\<close>

definition mock_loads :: "pystr \<Rightarrow> exn + pyval" where
  \<open>mock_loads s =
     (if s = (py ''123'') then Inr (PInt 123)
      else if s = (py ''{"contents": "foo"}'') then Inr (PDict [(PStr (py ''contents''), PStr (py ''foo''))])
      else if s = (py ''plain text'') then Inl JSONDecodeError
      else Inl (OtherError ''not tabulated''))\<close>

definition mock_repr :: "pyval \<Rightarrow> pystr" where
  "mock_repr v =
     (if v = PDict [(PStr (py ''id''), PInt 7)] then (py ''{'id': 7}'') else (py ''not tabulated''))"

text \<open>An agent whose evidence is one block of four lines, the second one blank.\<close>

definition mock_agent :: "pystr \<Rightarrow> exn + pyval" where
  "mock_agent hypothesis =
     Inr (PStr (py ''first passage'' @ [NL] @ py ''   '' @ [NL] @ py ''second passage'' @ [NL] @ py ''third''))"


section \<open>Properties of the helpers\<close>

subsection \<open>Sampling from the pool\<close>

lemma pool_step:
  assumes "j < m" "m \<le> length pool" "distinct (take m pool)"
  shows "distinct (take (m - 1) (pool[j := pool ! (m - 1)]))
       \<and> set (take (m - 1) (pool[j := pool ! (m - 1)])) = set (take m pool) - {pool ! j}"
proof -
  define ys where "ys = take (m - 1) pool"
  define v where "v = pool ! (m - 1)"
  from assms have m: "m = Suc (m - 1)" and lt: "m - 1 < length pool" by auto
  have split: "take m pool = ys @ [v]"
    unfolding ys_def v_def using take_Suc_conv_app_nth [OF lt] m by simp
  with assms(3) have dys: "distinct ys" and vys: "v \<notin> set ys" by auto
  have len: "length ys = m - 1" unfolding ys_def using lt by simp
  show ?thesis
  proof (cases "j = m - 1")
    case True
    then have "take (m - 1) (pool[j := v]) = ys"
      unfolding ys_def by simp
    moreover have "pool ! j = v" using True v_def by simp
    ultimately show ?thesis using dys vys split unfolding v_def [symmetric] by auto
  next
    case False
    with assms(1) have jl: "j < m - 1" by simp
    then have eq: "take (m - 1) (pool[j := v]) = ys[j := v]"
      unfolding ys_def by (simp add: take_update_swap)
    have yj: "ys ! j = pool ! j" unfolding ys_def using jl by simp
    have d: "distinct (ys[j := v])"
      using dys vys by (simp add: distinct_list_update)
    have s: "set (ys[j := v]) = insert v (set ys - {ys ! j})"
      using dys jl len by (simp add: set_update_distinct)
    have "ys ! j \<in> set ys" using jl len by simp
    with vys have "v \<noteq> ys ! j" by auto
    with s split yj have "set (ys[j := v]) = set (take m pool) - {pool ! j}" by auto
    with d eq show ?thesis unfolding v_def [symmetric] by simp
  qed
qed

lemma sample_pool_props:
  "t \<le> m \<Longrightarrow> m \<le> length pool \<Longrightarrow> distinct (take m pool) \<Longrightarrow>
     length (sample_pool g pool m t) = t
   \<and> distinct (sample_pool g pool m t)
   \<and> set (sample_pool g pool m t) \<subseteq> set (take m pool)"
proof (induction t arbitrary: g pool m)
  case 0
  then show ?case by simp
next
  case (Suc t)
  define j where "j = g 0 mod m"
  define pool' where "pool' = pool[j := pool ! (m - 1)]"
  from Suc.prems have mpos: "0 < m" by simp
  then have jm: "j < m" unfolding j_def by simp
  from pool_step [OF jm Suc.prems(2,3)]
  have d': "distinct (take (m - 1) pool')"
    and s': "set (take (m - 1) pool') = set (take m pool) - {pool ! j}"
    unfolding pool'_def by simp_all
  have "t \<le> m - 1" "m - 1 \<le> length pool'"
    using Suc.prems unfolding pool'_def by simp_all
  from Suc.IH [OF this d', of "\<lambda>i. g (Suc i)"]
  have ih: "length (sample_pool (\<lambda>i. g (Suc i)) pool' (m - 1) t) = t"
    "distinct (sample_pool (\<lambda>i. g (Suc i)) pool' (m - 1) t)"
    "set (sample_pool (\<lambda>i. g (Suc i)) pool' (m - 1) t) \<subseteq> set (take m pool) - {pool ! j}"
    using s' by simp_all
  have "pool ! j \<in> set (take m pool)"
    using jm Suc.prems(2) by (metis in_set_conv_nth length_take min.absorb2 nth_take)
  moreover have "sample_pool g pool m (Suc t)
      = pool ! j # sample_pool (\<lambda>i. g (Suc i)) pool' (m - 1) t"
    by (simp add: randbelow_def j_def pool'_def)
  ultimately show ?case using ih by auto
qed

subsection \<open>Upper-casing and splitting\<close>


lemma upper_ascii: "\<forall>c \<in> set s. c < 128 \<Longrightarrow> upper wu s = upper wu' s"
  by (induction s) (auto simp: upper_def)

lemma split_on_ne: "split_on sep s \<noteq> []"
  by (induction s) (auto split: list.splits)

lemma join_Cons_Cons: "join sep ((c # p) # ps) = c # join sep (p # ps)"
  by (cases ps) simp_all

lemma join_split_on: "join [sep] (split_on sep s) = s"
proof (induction s)
  case Nil
  then show ?case by simp
next
  case (Cons c cs)
  show ?case
  proof (cases "c = sep")
    case True
    with Cons show ?thesis by (cases "split_on sep cs") (simp_all add: split_on_ne)
  next
    case False
    with Cons show ?thesis
      by (cases "split_on sep cs") (simp_all add: split_on_ne join_Cons_Cons)
  qed
qed

lemma split_on_no_sep: "p \<in> set (split_on sep s) \<Longrightarrow> sep \<notin> set p"
  by (induction s arbitrary: p) (auto split: list.splits if_splits)

subsection \<open>The counter and its maximum\<close>

lemma Counter_snoc: "Counter (xs @ [x]) = counter_inc x (Counter xs)"
  by (simp add: Counter_def)

lemma keys_counter_inc:
  "map fst (counter_inc x c) = (if x \<in> fst ` set c then map fst c else map fst c @ [x])"
  by (induction c) force+

lemma map_of_counter_inc:
  "map_of (counter_inc x c) =
     (map_of c)(x \<mapsto> (case map_of c x of None \<Rightarrow> 1 | Some n \<Rightarrow> n + 1))"
  by (induction c) (auto simp: fun_eq_iff)

lemma sum_counter_inc: "sum_list (map snd (counter_inc x c)) = Suc (sum_list (map snd c))"
  by (induction c) auto

lemma map_of_Counter:
  "map_of (Counter xs) k = (if k \<in> set xs then Some (count_list xs k) else None)"
proof (induction xs rule: rev_induct)
  case Nil
  then show ?case by (simp add: Counter_def)
next
  case (snoc x xs)
  then show ?case
    by (auto simp: Counter_snoc map_of_counter_inc)
qed

lemma keys_Counter_set: "fst ` set (Counter xs) = set xs"
proof -
  have "dom (map_of (Counter xs)) = set xs"
    by (auto simp: map_of_Counter dom_def)
  then show ?thesis by (simp add: dom_map_of_conv_image_fst)
qed

lemma keys_Counter_snoc:
  "map fst (Counter (xs @ [x])) =
     (if x \<in> set xs then map fst (Counter xs) else map fst (Counter xs) @ [x])"
  by (simp add: Counter_snoc keys_counter_inc keys_Counter_set)

lemma distinct_keys_Counter: "distinct (map fst (Counter xs))"
proof (induction xs rule: rev_induct)
  case Nil
  then show ?case by (simp add: Counter_def)
next
  case (snoc x xs)
  have "set (map fst (Counter xs)) = set xs"
    using keys_Counter_set [of xs] by simp
  with snoc show ?case by (simp add: keys_Counter_snoc)
qed

lemma sum_Counter: "sum_list (map snd (Counter xs)) = length xs"
proof (induction xs rule: rev_induct)
  case Nil
  then show ?case by (simp add: Counter_def)
next
  case (snoc x xs)
  then show ?case by (simp add: Counter_snoc sum_counter_inc)
qed

lemma Counter_entry:
  "(k, n) \<in> set (Counter xs) \<longleftrightarrow> k \<in> set xs \<and> n = count_list xs k"
proof -
  have "(k, n) \<in> set (Counter xs) \<longleftrightarrow> map_of (Counter xs) k = Some n"
    using distinct_keys_Counter [of xs] by (simp only: map_of_eq_Some_iff)
  then show ?thesis by (auto simp: map_of_Counter)
qed

lemma keys_Counter_first:
  "w \<in> set xs \<Longrightarrow>
   takeWhile (\<lambda>k. k \<noteq> w) (map fst (Counter xs)) = ks \<Longrightarrow>
   set ks = set (takeWhile (\<lambda>k. k \<noteq> w) xs)"
proof (induction xs arbitrary: ks rule: rev_induct)
  case Nil
  then show ?case by simp
next
  case (snoc x xs)
  have keys: "set (map fst (Counter xs)) = set xs"
    using keys_Counter_set [of xs] by simp
  show ?case
  proof (cases "w \<in> set xs")
    case True
    then have "w \<in> set (map fst (Counter xs))" using keys by simp
    then have "takeWhile (\<lambda>k. k \<noteq> w) (map fst (Counter (xs @ [x])))
        = takeWhile (\<lambda>k. k \<noteq> w) (map fst (Counter xs))"
      by (auto simp: keys_Counter_snoc takeWhile_append1)
    moreover have "takeWhile (\<lambda>k. k \<noteq> w) (xs @ [x]) = takeWhile (\<lambda>k. k \<noteq> w) xs"
      using True by (auto simp: takeWhile_append1)
    ultimately show ?thesis using snoc.IH [OF True refl] snoc.prems(2) by simp
  next
    case False
    with snoc.prems(1) have wx: "w = x" by simp
    from False have a: "\<forall>k \<in> set (map fst (Counter xs)). k \<noteq> w"
      using keys by auto
    have "takeWhile (\<lambda>k. k \<noteq> w) (map fst (Counter (xs @ [x]))) = map fst (Counter xs)"
      using False wx a by (simp add: keys_Counter_snoc takeWhile_append2 del: set_map)
    moreover have "\<forall>k \<in> set xs. k \<noteq> w" using False by auto
    then have "takeWhile (\<lambda>k. k \<noteq> w) (xs @ [x]) = xs"
      using wx by (simp add: takeWhile_append2)
    ultimately show ?thesis using snoc.prems(2) keys by simp
  qed
qed

lemma max_by_count_props:
  "\<exists>l1 l2. best # xs = l1 @ max_by_count best xs # l2
     \<and> (\<forall>e \<in> set l1. snd e < snd (max_by_count best xs))
     \<and> (\<forall>e \<in> set l2. snd e \<le> snd (max_by_count best xs))"
proof (induction xs arbitrary: best)
  case Nil
  show ?case by (rule exI [of _ "[]"]) simp
next
  case (Cons x xs)
  define b where "b = (if snd best < snd x then x else best)"
  define r where "r = max_by_count b xs"
  have r: "max_by_count best (x # xs) = r" by (simp add: b_def r_def)
  from Cons [of b] obtain l1 l2 where
    d: "b # xs = l1 @ r # l2" and lt: "\<forall>e \<in> set l1. snd e < snd r"
    and le: "\<forall>e \<in> set l2. snd e \<le> snd r"
    unfolding r_def by blast
  show ?case
  proof (cases l1)
    case Nil
    with d have br: "b = r" and xs: "xs = l2" by simp_all
    show ?thesis
    proof (cases "snd best < snd x")
      case True
      then have "best # x # xs = [best] @ r # l2" "\<forall>e \<in> set [best]. snd e < snd r"
        using br xs b_def by simp_all
      with le show ?thesis unfolding r by blast
    next
      case False
      then have "best # x # xs = [] @ r # (x # l2)" "\<forall>e \<in> set (x # l2). snd e \<le> snd r"
        using br xs b_def le by auto
      then have "best # x # xs = [] @ r # (x # l2) \<and> (\<forall>e \<in> set []. snd e < snd r)
          \<and> (\<forall>e \<in> set (x # l2). snd e \<le> snd r)" by simp
      then show ?thesis unfolding r by blast
    qed
  next
    case (Cons c l1')
    with d have cb: "c = b" and xs: "xs = l1' @ r # l2" by simp_all
    from lt Cons cb have "snd b < snd r" by simp
    then have "snd best < snd r" "snd x < snd r" unfolding b_def by (auto split: if_splits)
    moreover from lt Cons have "\<forall>e \<in> set l1'. snd e < snd r" by simp
    ultimately have "best # x # xs = (best # x # l1') @ r # l2"
      "\<forall>e \<in> set (best # x # l1'). snd e < snd r"
      using xs by simp_all
    with le show ?thesis unfolding r by blast
  qed
qed

subsection \<open>Tally and vote extraction\<close>

lemma Counter_nonempty: "xs \<noteq> [] \<Longrightarrow> Counter xs \<noteq> []"
  using keys_Counter_set [of xs] by auto

lemma most_common1_props:
  assumes "votes \<noteq> []"
  shows "\<exists>w. most_common1 (Counter votes) = [(w, count_list votes w)]
            \<and> w \<in> set votes
            \<and> (\<forall>k. count_list votes k \<le> count_list votes w)
            \<and> (\<forall>k \<in> set (takeWhile (\<lambda>x. x \<noteq> w) votes).
                  count_list votes k < count_list votes w)"
proof -
  from assms obtain b bs where c: "Counter votes = b # bs"
    using Counter_nonempty [of votes] by (cases "Counter votes") auto
  define r where "r = max_by_count b bs"
  obtain w n where rw: "r = (w, n)" by (cases r)
  from max_by_count_props [of b bs] obtain l1 l2 where
    d: "Counter votes = l1 @ r # l2"
    and lt: "\<forall>e \<in> set l1. snd e < snd r"
    and le: "\<forall>e \<in> set l2. snd e \<le> snd r"
    unfolding r_def c by blast
  from d rw have "(w, n) \<in> set (Counter votes)" by simp
  then have w: "w \<in> set votes" and n: "n = count_list votes w"
    by (simp_all add: Counter_entry)
  have mc: "most_common1 (Counter votes) = [(w, count_list votes w)]"
    using c rw n by (simp add: most_common1_def r_def)
  have all_le: "count_list votes k \<le> count_list votes w" for k
  proof (cases "k \<in> set votes")
    case True
    then have "(k, count_list votes k) \<in> set (Counter votes)"
      by (simp add: Counter_entry)
    with d have "(k, count_list votes k) \<in> set l1 \<union> {r} \<union> set l2" by auto
    with lt le rw n show ?thesis by force
  next
    case False
    then show ?thesis by (simp add: count_list_0_iff)
  qed
  have dk: "distinct (map fst l1 @ w # map fst l2)"
    using distinct_keys_Counter [of votes] d rw by simp
  then have "\<forall>k \<in> set (map fst l1). k \<noteq> w" by auto
  then have "takeWhile (\<lambda>k. k \<noteq> w) (map fst (Counter votes)) = map fst l1"
    using d rw by (simp add: takeWhile_append2 del: set_map)
  from keys_Counter_first [OF w this]
  have pre: "set (takeWhile (\<lambda>k. k \<noteq> w) votes) = fst ` set l1" by simp
  have first: "count_list votes k < count_list votes w"
    if "k \<in> set (takeWhile (\<lambda>x. x \<noteq> w) votes)" for k
  proof -
    from that pre obtain m where km: "(k, m) \<in> set l1" by auto
    with d have "(k, m) \<in> set (Counter votes)" by simp
    then have "m = count_list votes k" by (simp add: Counter_entry)
    with km lt rw n show ?thesis by force
  qed
  from mc w all_le first show ?thesis by blast
qed

lemma tally_empty:
  "tally [] logs = Inr \<lparr>final_verdict = None, confidence = 0, vote_breakdown = [],
                        juror_deliberations = logs\<rparr>"
  by (simp add: tally_def)

lemma tally_nonempty:
  assumes "votes \<noteq> []"
  shows "\<exists>w. tally votes logs =
              Inr \<lparr>final_verdict = Some w,
                   confidence = py_round2 (of_nat (count_list votes w) / of_nat (length votes)),
                   vote_breakdown = Counter votes,
                   juror_deliberations = logs\<rparr>
            \<and> w \<in> set votes
            \<and> (\<forall>k. count_list votes k \<le> count_list votes w)
            \<and> (\<forall>k \<in> set (takeWhile (\<lambda>x. x \<noteq> w) votes).
                  count_list votes k < count_list votes w)"
proof -
  from most_common1_props [OF assms] obtain w where
    mc: "most_common1 (Counter votes) = [(w, count_list votes w)]"
    and rest: "w \<in> set votes" "\<forall>k. count_list votes k \<le> count_list votes w"
      "\<forall>k \<in> set (takeWhile (\<lambda>x. x \<noteq> w) votes). count_list votes k < count_list votes w"
    by blast
  from assms mc have "tally votes logs =
      Inr \<lparr>final_verdict = Some w,
           confidence = py_round2 (of_nat (count_list votes w) / of_nat (length votes)),
           vote_breakdown = Counter votes,
           juror_deliberations = logs\<rparr>"
    by (simp add: tally_def)
  with rest show ?thesis by blast
qed

lemma clean_vote_Some:
  "clean_vote wu choices v = Some w \<longleftrightarrow>
     (\<exists>pre c post. upper wu (strip v) = pre @ c # post \<and> w = [c] \<and> has_key choices [c]
        \<and> (\<forall>x \<in> set pre. \<not> has_key choices [x]))"
proof
  assume "clean_vote wu choices v = Some w"
  then obtain c where f: "find (\<lambda>c. has_key choices [c]) (upper wu (strip v)) = Some c"
    and w: "w = [c]"
    by (auto simp: clean_vote_def)
  from f obtain i where i: "i < length (upper wu (strip v))" "has_key choices [upper wu (strip v) ! i]"
    "c = upper wu (strip v) ! i" "\<forall>j<i. \<not> has_key choices [upper wu (strip v) ! j]"
    unfolding find_Some_iff by blast
  let ?u = "upper wu (strip v)"
  have "?u = take i ?u @ c # drop (Suc i) ?u"
    using i(1,3) by (simp add: id_take_nth_drop)
  moreover have "\<forall>x \<in> set (take i ?u). \<not> has_key choices [x]"
    using i(1,4) by (auto simp: in_set_conv_nth)
  ultimately show "\<exists>pre c post. ?u = pre @ c # post \<and> w = [c] \<and> has_key choices [c]
        \<and> (\<forall>x \<in> set pre. \<not> has_key choices [x])"
    using w i(2,3) by blast
next
  assume "\<exists>pre c post. upper wu (strip v) = pre @ c # post \<and> w = [c] \<and> has_key choices [c]
        \<and> (\<forall>x \<in> set pre. \<not> has_key choices [x])"
  then obtain pre c post where u: "upper wu (strip v) = pre @ c # post" and w: "w = [c]"
    and k: "has_key choices [c]" and n: "\<forall>x \<in> set pre. \<not> has_key choices [x]"
    by blast
  have "find (\<lambda>c. has_key choices [c]) (pre @ c # post) = Some c"
    using k n by (induction pre) auto
  with u w show "clean_vote wu choices v = Some w" by (simp add: clean_vote_def)
qed

lemma clean_vote_None:
  "clean_vote wu choices v = None \<longleftrightarrow> (\<forall>c \<in> set (upper wu (strip v)). \<not> has_key choices [c])"
  by (auto simp: clean_vote_def find_None_iff)

lemma clean_vote_key: "clean_vote wu choices v = Some w \<Longrightarrow> has_key choices w"
  unfolding clean_vote_Some by blast



subsection \<open>Selection, deliberation and the whole call\<close>

lemma length_available_keys: "length available_keys = 5"
  by (simp add: available_keys_def LEGAL_PERSONAS_def)

lemma distinct_available_keys: "distinct available_keys"
  by code_simp

lemma selected_names_negative: "n < 0 \<Longrightarrow> selected_names g n = Inl ValueError"
  by (simp add: selected_names_def random_sample_def Let_def)

lemma selected_names_ok:
  assumes "0 \<le> n"
  shows "\<exists>names. selected_names g n = Inr names
           \<and> length names = nat (min n 5)
           \<and> distinct names
           \<and> set names \<subseteq> set available_keys"
proof -
  define k where "k = nat (min n 5)"
  have k5: "k \<le> 5" unfolding k_def by simp
  have sel: "selected_names g n = Inr (sample_pool g available_keys 5 k)"
    using assms
    by (simp add: selected_names_def random_sample_def Let_def length_available_keys k_def)
  have "distinct (take 5 available_keys)"
    using distinct_available_keys length_available_keys by simp
  from sample_pool_props [OF k5 _ this, of g]
  have "length (sample_pool g available_keys 5 k) = k"
    "distinct (sample_pool g available_keys 5 k)"
    "set (sample_pool g available_keys 5 k) \<subseteq> set available_keys"
    using length_available_keys by simp_all
  with sel show ?thesis unfolding k_def by simp
qed

lemma selected_names_InrD:
  assumes "selected_names g n = Inr names"
  shows "0 \<le> n \<and> length names = nat (min n 5) \<and> distinct names
           \<and> set names \<subseteq> set available_keys"
proof -
  have "0 \<le> n"
  proof (rule ccontr)
    assume "\<not> 0 \<le> n"
    then have "selected_names g n = Inl ValueError" by (simp add: selected_names_negative)
    with assms show False by simp
  qed
  with selected_names_ok [of n g] assms show ?thesis by auto
qed

lemma juror_ballot:
  assumes "map_of LEGAL_PERSONAS name = Some desc"
  shows "juror wu predict question choices opts ev name desc (votes, logs) =
           (case ballot_of wu predict question choices opts ev name of
              None \<Rightarrow> (votes, logs)
            | Some b \<Rightarrow> (votes @ cast_votes [b], logs @ [b]))"
  using assms
  by (auto simp: juror_def ballot_of_def cast_votes_def Let_def List.map_filter_simps
           split: sum.splits option.splits)

lemma cast_votes_append: "cast_votes (xs @ ys) = cast_votes xs @ cast_votes ys"
  by (simp add: cast_votes_def List.map_filter_def)

lemma deliberate_ballots:
  assumes "set names \<subseteq> set available_keys"
  shows "deliberate wu predict question choices opts ev names (votes, logs) =
           Inr (votes @ cast_votes (List.map_filter (ballot_of wu predict question choices opts ev) names),
                logs @ List.map_filter (ballot_of wu predict question choices opts ev) names)"
  using assms
proof (induction names arbitrary: votes logs)
  case Nil
  then show ?case by (simp add: cast_votes_def List.map_filter_simps)
next
  case (Cons name names)
  then have "name \<in> fst ` set LEGAL_PERSONAS" by (auto simp: available_keys_def)
  then obtain desc where d: "map_of LEGAL_PERSONAS name = Some desc"
    by (cases "map_of LEGAL_PERSONAS name") (auto simp: map_of_eq_None_iff)
  from Cons.prems have sub: "set names \<subseteq> set available_keys" by simp
  let ?bo = "ballot_of wu predict question choices opts ev"
  show ?case
  proof (cases "?bo name")
    case None
    with d Cons.IH [OF sub, of votes logs] show ?thesis
      by (simp add: juror_ballot List.map_filter_simps)
  next
    case (Some b)
    have "cast_votes (b # List.map_filter ?bo names)
          = cast_votes [b] @ cast_votes (List.map_filter ?bo names)"
      by (simp add: cast_votes_def List.map_filter_simps split: option.splits)
    with Some d Cons.IH [OF sub, of "votes @ cast_votes [b]" "logs @ [b]"] show ?thesis
      by (simp add: juror_ballot List.map_filter_simps)
  qed
qed

lemma synthesize_eq:
  assumes "formatted_evidence loads repr evs = Inr ev" "selected_names g n = Inr names"
  shows "synthesize loads repr wu g predict question choices evs n =
           tally (cast_votes (ballots wu predict question choices ev names))
                 (ballots wu predict question choices ev names)"
proof -
  from selected_names_InrD [OF assms(2)] have "set names \<subseteq> set available_keys" by simp
  from deliberate_ballots [OF this, of wu predict question choices "options_text choices" ev "[]" "[]"]
  show ?thesis using assms by (simp add: synthesize_def ballots_def)
qed

lemma synthesize_InrD:
  assumes "synthesize loads repr wu g predict question choices evs n = Inr v"
  shows "\<exists>ev names. formatted_evidence loads repr evs = Inr ev
            \<and> selected_names g n = Inr names
            \<and> tally (cast_votes (ballots wu predict question choices ev names))
                    (ballots wu predict question choices ev names) = Inr v"
proof -
  from assms obtain ev where e: "formatted_evidence loads repr evs = Inr ev"
    by (cases "formatted_evidence loads repr evs") (simp_all add: synthesize_def)
  from assms e obtain names where s: "selected_names g n = Inr names"
    by (cases "selected_names g n") (simp_all add: synthesize_def)
  from synthesize_eq [OF e s] assms e s show ?thesis by auto
qed

lemma tally_logs: "tally votes logs = Inr v \<Longrightarrow> juror_deliberations v = logs"
  by (auto simp: tally_def split: if_splits list.splits)

lemma tally_total: "\<exists>v. tally votes logs = Inr v"
  using tally_nonempty [of votes logs] tally_empty [of logs] by (cases "votes = []") auto

lemma cast_votes_keys:
  "w \<in> set (cast_votes (ballots wu predict question choices ev names)) \<Longrightarrow> has_key choices w"
proof -
  assume "w \<in> set (cast_votes (ballots wu predict question choices ev names))"
  then obtain b where b: "b \<in> set (ballots wu predict question choices ev names)" "vote b = Some w"
    by (auto simp: cast_votes_def List.map_filter_def)
  then obtain name where "ballot_of wu predict question choices (options_text choices) ev name = Some b"
    by (auto simp: ballots_def List.map_filter_def)
  then have "\<exists>raw. vote b = clean_vote wu choices raw"
    by (auto simp: ballot_of_def split: option.splits sum.splits)
  then obtain raw where "clean_vote wu choices raw = Some w"
    using b(2) by auto
  then show ?thesis by (rule clean_vote_key)
qed


lemma ballot_of_answered:
  "ballot_of wu predict question choices opts ev name \<noteq> None \<longleftrightarrow>
     (\<exists>desc (pred :: prediction). map_of LEGAL_PERSONAS name = Some desc
        \<and> predict desc question opts ev = Inr pred)"
  by (auto simp: ballot_of_def split: option.splits sum.splits)

lemma persona_ballot_of:
  "ballot_of wu predict question choices opts ev name = Some b \<Longrightarrow> persona b = name"
  by (auto simp: ballot_of_def split: option.splits sum.splits)

lemma persona_ballots:
  "map persona (ballots wu predict question choices ev names) =
     filter (\<lambda>name. \<exists>desc (pred :: prediction). map_of LEGAL_PERSONAS name = Some desc
               \<and> predict desc question (options_text choices) ev = Inr pred) names"
proof (induction names)
  case Nil
  show ?case by (simp add: ballots_def List.map_filter_simps)
next
  case (Cons name names)
  show ?case
  proof (cases "ballot_of wu predict question choices (options_text choices) ev name")
    case None
    then have "\<not> (\<exists>desc (pred :: prediction). map_of LEGAL_PERSONAS name = Some desc
               \<and> predict desc question (options_text choices) ev = Inr pred)"
      using ballot_of_answered [of wu predict question choices "options_text choices" ev name]
      by simp
    with None Cons show ?thesis
      by (simp add: ballots_def List.map_filter_simps)
  next
    case (Some b)
    then have "\<exists>desc (pred :: prediction). map_of LEGAL_PERSONAS name = Some desc
               \<and> predict desc question (options_text choices) ev = Inr pred"
      using ballot_of_answered [of wu predict question choices "options_text choices" ev name]
      by simp
    with Some Cons persona_ballot_of [OF Some] show ?thesis
      by (simp add: ballots_def List.map_filter_simps)
  qed
qed

lemma juror_raises:
  "predict desc question opts ev = Inl e \<Longrightarrow>
   juror wu predict question choices opts ev name desc st = st"
  by (cases st) (simp add: juror_def)

lemma juror_answers:
  "predict desc question opts ev = Inr pred \<Longrightarrow>
   juror wu predict question choices opts ev name desc (votes, logs) =
     ((case clean_vote wu choices (pred_vote pred) of Some c \<Rightarrow> votes @ [c] | None \<Rightarrow> votes),
      logs @ [\<lparr>persona = name, vote = clean_vote wu choices (pred_vote pred),
               reasoning = pred_reasoning pred\<rparr>])"
  by (simp add: juror_def Let_def)

subsection \<open>Evidence and slices\<close>

lemma strip_eq_Nil: "strip p = [] \<longleftrightarrow> (\<forall>c \<in> set p. is_space c)"
proof
  assume "strip p = []"
  then have "\<forall>x \<in> set (dropWhile is_space p). is_space x"
    by (simp add: strip_def dropWhile_eq_Nil_conv)
  then have "dropWhile is_space p = []"
    using hd_dropWhile [of is_space p] by (cases "dropWhile is_space p") auto
  then show "\<forall>c \<in> set p. is_space c" by (simp add: dropWhile_eq_Nil_conv)
next
  assume "\<forall>c \<in> set p. is_space c"
  then have d: "dropWhile is_space p = []" by (simp add: dropWhile_eq_Nil_conv)
  show "strip p = []" unfolding strip_def d by simp
qed

lemma length_py_slice_to: "0 \<le> k \<Longrightarrow> int (length (py_slice_to xs k)) \<le> k"
  by (simp add: py_slice_to_def)

lemma evidence_content_cases:
  "(loads s = Inr (PDict d) \<longrightarrow>
      evidence_content loads repr (PStr s) = Inr (dict_get d (py ''contents'') (PStr s)))
   \<and> (loads s = Inl JSONDecodeError \<longrightarrow> evidence_content loads repr (PStr s) = Inr (PStr s))
   \<and> evidence_content loads repr (PDict d)
       = Inr (dict_get d (py ''contents'') (dict_get d (py ''text'') (PStr (repr (PDict d)))))
   \<and> (map_of d (PStr (py ''contents'')) = Some c \<longrightarrow> dict_get d (py ''contents'') dflt = c)
   \<and> (map_of d (PStr (py ''contents'')) = None \<longrightarrow> dict_get d (py ''contents'') dflt = dflt)"
  by (simp add: evidence_content_def dict_get_def)

subsection \<open>The confidence is never on a rounding tie\<close>

text \<open>
  A verdict counts at most five votes, and a quotient of counts with a denominator of at
  most 5 is never halfway between two hundredths: \<^verbatim>\<open>round\<close> has one nearest hundredth
  to go to, for the floating-point quotient as for the rational one.
\<close>

lemma length_cast_votes: "length (cast_votes logs) \<le> length logs"
  by (simp add: cast_votes_def List.map_filter_def)

lemma at_most_five_votes:
  assumes "synthesize loads repr wu g predict question choices evidence_list num_arbiters = Inr v"
  shows "length (cast_votes (juror_deliberations v)) \<le> 5"
proof -
  from synthesize_InrD [OF assms] obtain ev names where
    s: "selected_names g num_arbiters = Inr names"
    and t: "tally (cast_votes (ballots wu predict question choices ev names))
                  (ballots wu predict question choices ev names) = Inr v"
    by blast
  from selected_names_InrD [OF s] have "length names \<le> 5" by simp
  moreover have "length (ballots wu predict question choices ev names) \<le> length names"
    by (simp add: ballots_def List.map_filter_def)
  moreover note length_cast_votes [of "ballots wu predict question choices ev names"]
  ultimately show ?thesis using tally_logs [OF t] by simp
qed

lemma odd_not_even_product:
  fixes a m :: nat
  assumes "even a" "a = 2 * m + 1"
  shows False
  using assms by simp

lemma no_rounding_tie:
  fixes c n m :: nat
  assumes "0 < n" "n \<le> 5"
  shows "2 * (100 * c) \<noteq> (2 * m + 1) * n"
proof
  assume e: "2 * (100 * c) = (2 * m + 1) * n"
  from assms have "n = 1 \<or> n = 2 \<or> n = 3 \<or> n = 4 \<or> n = 5" by arith
  then show False
  proof (elim disjE)
    assume n: "n = 1"
    from e have "2 * (100 * c) = 2 * m + 1" unfolding n by simp
    with odd_not_even_product [of "2 * (100 * c)" m] show False by simp
  next
    assume n: "n = 2"
    from e have "2 * (100 * c) = 2 * (2 * m + 1)" unfolding n by simp
    then have "2 * (50 * c) = 2 * m + 1" by simp
    with odd_not_even_product [of "2 * (50 * c)" m] show False by simp
  next
    assume n: "n = 3"
    from e have "even ((2 * m + 1) * 3)" unfolding n by (metis dvd_triv_left)
    then show False by simp
  next
    assume n: "n = 4"
    from e have "2 * (2 * (50 * c)) = 2 * (2 * (2 * m + 1))" unfolding n by simp
    then have "2 * (25 * c) = 2 * m + 1" by simp
    with odd_not_even_product [of "2 * (25 * c)" m] show False by simp
  next
    assume n: "n = 5"
    from e have "even ((2 * m + 1) * 5)" unfolding n by (metis dvd_triv_left)
    then show False by simp
  qed
qed

lemma py_round2_hundredth: "\<exists>n :: int. py_round2 x = of_int n / 100"
  unfolding py_round2_def Let_def by blast

lemma py_round2_near:
  assumes "x * 100 - of_int \<lfloor>x * 100\<rfloor> \<noteq> 1 / 2"
  shows "\<bar>py_round2 x - x\<bar> < 1 / 200"
proof -
  define y where "y = x * 100"
  define f where "f = \<lfloor>y\<rfloor>"
  define d where "d = y - of_int f"
  have d0: "0 \<le> d" and d1: "d < 1"
    unfolding d_def f_def by linarith+
  have x: "x = (of_int f + d) / 100" unfolding d_def y_def by simp
  from assms have dh: "d \<noteq> 1 / 2" unfolding d_def f_def y_def .
  show ?thesis
  proof (cases "d < 1 / 2")
    case True
    then have "py_round2 x = of_int f / 100"
      unfolding py_round2_def Let_def y_def [symmetric] f_def [symmetric] d_def [symmetric]
      by simp
    with True d0 show ?thesis unfolding x by (simp add: field_simps)
  next
    case False
    with dh have h: "1 / 2 < d" by simp
    with False have "py_round2 x = of_int (f + 1) / 100"
      unfolding py_round2_def Let_def y_def [symmetric] f_def [symmetric] d_def [symmetric]
      by simp
    with h d1 show ?thesis unfolding x by (simp add: field_simps)
  qed
qed

lemma quotient_no_tie:
  fixes c n :: nat
  assumes "0 < n" "n \<le> 5"
  shows "(of_nat c / of_nat n :: rat) * 100 - of_int \<lfloor>(of_nat c / of_nat n :: rat) * 100\<rfloor>
           \<noteq> 1 / 2"
proof
  define f where "f = \<lfloor>(of_nat c / of_nat n :: rat) * 100\<rfloor>"
  assume "(of_nat c / of_nat n :: rat) * 100 - of_int \<lfloor>(of_nat c / of_nat n :: rat) * 100\<rfloor>
           = 1 / 2"
  then have e: "(of_nat c / of_nat n :: rat) * 100 = of_int f + 1 / 2"
    unfolding f_def by simp
  have "0 \<le> (of_nat c / of_nat n :: rat) * 100" by simp
  then have "0 \<le> f" unfolding f_def by (simp only: zero_le_floor)
  then obtain m :: nat where m: "f = int m" using nonneg_int_cases by blast
  from assms(1) have n0: "(of_nat n :: rat) \<noteq> 0" by simp
  from e have "(of_nat c :: rat) * 100 = (of_int f + 1 / 2) * of_nat n"
    using n0 by (simp add: field_simps)
  then have "(of_nat c :: rat) * 200 = (2 * of_nat m + 1) * of_nat n"
    unfolding m by (simp add: field_simps)
  then have "(of_nat (2 * (100 * c)) :: rat) = of_nat ((2 * m + 1) * n)"
    by (simp add: field_simps)
  then have "2 * (100 * c) = (2 * m + 1) * n" by (simp only: of_nat_eq_iff)
  with no_rounding_tie [OF assms] show False by blast
qed

section \<open>Evaluations on the sample inputs\<close>

lemma mock_trial_3:
  "synthesize mock_loads mock_repr mock_wide_upper first_draws mock_predict (py ''q'') case_1_choices [] 3
   = Inr mock_verdict_3"
  by code_simp

lemma mock_trial_5:
  "synthesize mock_loads mock_repr mock_wide_upper first_draws mock_predict (py ''q'') case_1_choices [] 5
   = Inr mock_verdict_5"
  by code_simp

lemma mock_evidence_empty:
  "formatted_evidence mock_loads mock_repr [] = Inr ([NL] @ py '' Evidence - '')"
  by (simp add: formatted_evidence_def)

lemma mock_selection_3:
  "selected_names first_draws 3
   = Inr [py ''The Strict Textualist'', py ''The Precedent Loyalist'', py ''The Legal Realist'']"
  by code_simp

lemma mock_selection_5:
  "selected_names first_draws 5
   = Inr [py ''The Strict Textualist'', py ''The Precedent Loyalist'', py ''The Legal Realist'',
          (py ''The Equity Advocate''), py ''The Devil's Advocate'']"
  by code_simp


lemma evidence_examples:
  \<open>formatted_evidence mock_loads mock_repr
     [PStr (py ''{"contents": "foo"}''), PDict [(PStr (py ''text''), PStr (py ''foo''))],
      PStr (py ''plain text''), PDict [(PStr (py ''id''), PInt 7)], PInt 3]
   = Inr ([NL] @ py '' Evidence - [Document 1] foo'' @ [NL] @ py ''[Document 2] foo'' @ [NL]
          @ py ''[Document 3] plain text'' @ [NL] @ py ''[Document 4] {'id': 7}'' @ [NL]
          @ py ''[Document 5] '' @ [NL])\<close>
  by code_simp

section \<open>The claims about the jury\<close>

text \<open>
  C1. Whenever \<^verbatim>\<open>Jury.synthesize\<close> returns a verdict whose \<^verbatim>\<open>final_verdict\<close> is
  present, that verdict is a key of the \<^verbatim>\<open>choices\<close> mapping, for every question,
  choices, evidence list and number of arbiters, and whatever the collaborators return.
\<close>

theorem final_verdict_is_choice_key:
  assumes "synthesize loads repr wu g predict question choices evidence_list num_arbiters = Inr v"
    and "final_verdict v = Some w"
  shows "w \<in> fst ` set choices"
proof -
  from synthesize_InrD [OF assms(1)] obtain ev names where
    t: "tally (cast_votes (ballots wu predict question choices ev names))
              (ballots wu predict question choices ev names) = Inr v"
    by blast
  let ?votes = "cast_votes (ballots wu predict question choices ev names)"
  have ne: "?votes \<noteq> []"
  proof
    assume "?votes = []"
    with t assms(2) show False by (auto simp: tally_def)
  qed
  from tally_nonempty [OF ne, of "ballots wu predict question choices ev names"] t assms(2)
  have "w \<in> set ?votes" by auto
  then have "has_key choices w" by (rule cast_votes_keys)
  then show ?thesis by (simp add: has_key_def)
qed

theorem final_verdict_is_choice_key_witness:
  "synthesize mock_loads mock_repr mock_wide_upper first_draws mock_predict (py ''q'') case_1_choices [] 3
     = Inr mock_verdict_3
   \<and> final_verdict mock_verdict_3 = Some (py ''B'')
   \<and> (py ''B'') \<in> fst ` set case_1_choices"
proof -
  have f: "final_verdict mock_verdict_3 = Some (py ''B'')" by (simp add: mock_verdict_3_def)
  from final_verdict_is_choice_key [OF mock_trial_3 f] mock_trial_3 f show ?thesis by simp
qed

text \<open>
  C2. In every verdict returned with at least one non-empty vote, \<^verbatim>\<open>final_verdict\<close> is
  a key of highest count, and of the keys with that count the one met first in ballot
  order (every key voted for before its first ballot has strictly fewer votes); the
  values of \<^verbatim>\<open>vote_breakdown\<close> are the counts of the keys and sum to the number of
  non-empty ballots; \<^verbatim>\<open>confidence\<close> is the winning count divided by the number of
  non-empty votes, rounded to two decimals: it is a whole number of hundredths, less than
  half a hundredth away from the quotient, which is the value \<^verbatim>\<open>round(x, 2)\<close> of the
  quotient.
\<close>

theorem majority_verdict:
  assumes "synthesize loads repr wu g predict question choices evidence_list num_arbiters = Inr v"
    and "votes = cast_votes (juror_deliberations v)"
    and "votes \<noteq> []"
  shows "\<exists>w. final_verdict v = Some w
           \<and> (\<forall>k. count_list votes k \<le> count_list votes w)
           \<and> (\<forall>k \<in> set (takeWhile (\<lambda>x. x \<noteq> w) votes).
                 count_list votes k < count_list votes w)
           \<and> (\<forall>k. map_of (vote_breakdown v) k =
                 (if k \<in> set votes then Some (count_list votes k) else None))
           \<and> sum_list (map snd (vote_breakdown v))
               = length (filter (\<lambda>b. vote b \<noteq> None) (juror_deliberations v))
           \<and> (\<exists>n :: int. confidence v = of_int n / 100)
           \<and> \<bar>confidence v - of_nat (count_list votes w) / of_nat (length votes)\<bar> < 1 / 200
           \<and> confidence v
               = py_round2 (of_nat (count_list votes w) / of_nat (length votes))"
proof -
  from synthesize_InrD [OF assms(1)] obtain ev names where
    t: "tally (cast_votes (ballots wu predict question choices ev names))
              (ballots wu predict question choices ev names) = Inr v"
    by blast
  from tally_logs [OF t]
  have logs: "juror_deliberations v = ballots wu predict question choices ev names" .
  with t assms(2) have t': "tally votes (juror_deliberations v) = Inr v" by simp
  from tally_nonempty [OF assms(3), of "juror_deliberations v"] t' obtain w where
    v: "v = \<lparr>final_verdict = Some w,
              confidence = py_round2 (of_nat (count_list votes w) / of_nat (length votes)),
              vote_breakdown = Counter votes,
              juror_deliberations = juror_deliberations v\<rparr>"
    and le: "\<forall>k. count_list votes k \<le> count_list votes w"
    and first: "\<forall>k \<in> set (takeWhile (\<lambda>x. x \<noteq> w) votes).
                  count_list votes k < count_list votes w"
    by auto
  have fv: "final_verdict v = Some w" by (subst v) simp
  have cf: "confidence v = py_round2 (of_nat (count_list votes w) / of_nat (length votes))"
    by (subst v) simp
  have vb: "vote_breakdown v = Counter votes" by (subst v) simp
  have len: "length votes = length (filter (\<lambda>b. vote b \<noteq> None) (juror_deliberations v))"
    unfolding assms(2) by (simp add: cast_votes_def List.map_filter_def)
  have sm: "sum_list (map snd (vote_breakdown v))
            = length (filter (\<lambda>b. vote b \<noteq> None) (juror_deliberations v))"
    unfolding vb sum_Counter by (rule len)
  have mp: "\<forall>k. map_of (vote_breakdown v) k =
                 (if k \<in> set votes then Some (count_list votes k) else None)"
    unfolding vb by (simp add: map_of_Counter)
  from assms(3) have n0: "0 < length votes" by simp
  from at_most_five_votes [OF assms(1)] have n5: "length votes \<le> 5"
    unfolding assms(2) .
  have hu: "\<exists>n :: int. confidence v = of_int n / 100"
    unfolding cf by (rule py_round2_hundredth)
  have nr: "\<bar>confidence v - of_nat (count_list votes w) / of_nat (length votes)\<bar> < 1 / 200"
    unfolding cf by (rule py_round2_near [OF quotient_no_tie [OF n0 n5]])
  from fv le first mp sm hu nr cf show ?thesis by blast
qed

theorem majority_verdict_witness:
  "synthesize mock_loads mock_repr mock_wide_upper first_draws mock_predict (py ''q'')
     case_1_choices [] 3 = Inr mock_verdict_3
   \<and> cast_votes (juror_deliberations mock_verdict_3) = [py ''B'', py ''B'', py ''A'']
   \<and> final_verdict mock_verdict_3 = Some (py ''B'')
   \<and> sum_list (map snd (vote_breakdown mock_verdict_3)) = 3
   \<and> confidence mock_verdict_3 = 67 / 100
   \<and> \<bar>confidence mock_verdict_3 - 2 / 3\<bar> < 1 / 200"
proof -
  have c: "[py ''B'', py ''B'', py ''A''] = cast_votes (juror_deliberations mock_verdict_3)"
    by code_simp
  have n: "[py ''B'', py ''B'', py ''A''] \<noteq> ([] :: pystr list)" by simp
  from majority_verdict [OF mock_trial_3 c n]
  have "\<exists>w. final_verdict mock_verdict_3 = Some w" by blast
  moreover have "final_verdict mock_verdict_3 = Some (py ''B'')"
    "sum_list (map snd (vote_breakdown mock_verdict_3)) = 3"
    "confidence mock_verdict_3 = 67 / 100"
    "\<bar>confidence mock_verdict_3 - 2 / 3\<bar> < 1 / 200"
    by (simp_all add: mock_verdict_3_def)
  ultimately show ?thesis using mock_trial_3 c by simp
qed

text \<open>
  C3 (as stated, refuted by the next theorem).  With the keys A to D the raw vote
  \<^verbatim>\<open>I choose option D.\<close> does not extract D: upper-cased it reads
  \<^verbatim>\<open>I CHOOSE OPTION D.\<close>, whose first key character is the C of CHOOSE.
\<close>

theorem vote_extraction_counterexample:
  "clean_vote mock_wide_upper case_1_choices (py ''I choose option D.'') = Some (py ''C'')
   \<and> clean_vote mock_wide_upper case_1_choices (py ''I choose option D.'') \<noteq> Some (py ''D'')"
  by code_simp

text \<open>
  C3 (amended).  The vote extracted is a function of the raw vote string and the
  choices: the first character of the trimmed, upper-cased string that is a key of
  \<^verbatim>\<open>choices\<close>, and nothing when no character is a key; the juror's ballot is recorded
  with that vote (empty or not) and with the reasoning.  With keys A to D,
  \<^verbatim>\<open>"  b) because...\n"\<close> extracts B, \<^verbatim>\<open>"I choose option D."\<close> extracts C, and
  \<^verbatim>\<open>"Not sure"\<close> extracts nothing.
\<close>

theorem vote_extraction:
  "(clean_vote wu choices raw = Some w \<longleftrightarrow>
      (\<exists>pre c post. upper wu (strip raw) = pre @ c # post \<and> w = [c] \<and> has_key choices [c]
         \<and> (\<forall>x \<in> set pre. \<not> has_key choices [x])))
   \<and> (clean_vote wu choices raw = None \<longleftrightarrow>
        (\<forall>c \<in> set (upper wu (strip raw)). \<not> has_key choices [c]))
   \<and> (predict desc question opts ev = Inr pred \<longrightarrow>
        juror wu predict question choices opts ev name desc (votes, logs) =
          ((case clean_vote wu choices (pred_vote pred) of
              Some c \<Rightarrow> votes @ [c] | None \<Rightarrow> votes),
           logs @ [\<lparr>persona = name, vote = clean_vote wu choices (pred_vote pred),
                    reasoning = pred_reasoning pred\<rparr>]))
   \<and> clean_vote wu case_1_choices (py ''  b) because...'' @ [NL]) = Some (py ''B'')
   \<and> clean_vote wu case_1_choices (py ''I choose option D.'') = Some (py ''C'')
   \<and> clean_vote wu case_1_choices (py ''Not sure'') = None"
proof -
  have "clean_vote wu case_1_choices (py ''  b) because...'' @ [NL]) = Some (py ''B'')"
    "clean_vote wu case_1_choices (py ''I choose option D.'') = Some (py ''C'')"
    "clean_vote wu case_1_choices (py ''Not sure'') = None"
    by (simp_all add: clean_vote_def upper_def upper_latin1_def strip_def is_space_def py_def
        NL_def has_key_def case_1_choices_def)
  then show ?thesis
    using clean_vote_Some [of wu choices raw w] clean_vote_None [of wu choices raw]
      juror_answers [of predict desc question opts ev pred wu choices name votes logs]
    by blast
qed

theorem vote_extraction_witness:
  "unsure_predict (py ''d'') (py ''q'') (py ''o'') (py ''e'')
     = Inr \<lparr>pred_reasoning = py ''It is unclear.'', pred_vote = py ''Not sure''\<rparr>
   \<and> upper mock_wide_upper (strip (py ''Not sure'')) = py ''NOT SURE''
   \<and> \<not> has_key case_1_choices (py ''N'') \<and> \<not> has_key case_1_choices (py ''O'')
   \<and> \<not> has_key case_1_choices (py ''T'') \<and> \<not> has_key case_1_choices (py '' '')
   \<and> \<not> has_key case_1_choices (py ''S'') \<and> \<not> has_key case_1_choices (py ''U'')
   \<and> \<not> has_key case_1_choices (py ''R'') \<and> \<not> has_key case_1_choices (py ''E'')
   \<and> juror mock_wide_upper unsure_predict (py ''q'') case_1_choices (py ''o'') (py ''e'') (py ''The Equity Advocate'') (py ''d'')
        ([py ''B''], [])
      = ([py ''B''], [\<lparr>persona = py ''The Equity Advocate'', vote = None,
                    reasoning = py ''It is unclear.''\<rparr>])"
proof -
  have p: "unsure_predict (py ''d'') (py ''q'') (py ''o'') (py ''e'')
     = Inr \<lparr>pred_reasoning = py ''It is unclear.'', pred_vote = py ''Not sure''\<rparr>"
    by (simp add: unsure_predict_def)
  have u: "upper mock_wide_upper (strip (py ''Not sure'')) = py ''NOT SURE''" by code_simp
  have k: "\<not> has_key case_1_choices (py ''N'')" "\<not> has_key case_1_choices (py ''O'')"
    "\<not> has_key case_1_choices (py ''T'')" "\<not> has_key case_1_choices (py '' '')"
    "\<not> has_key case_1_choices (py ''S'')" "\<not> has_key case_1_choices (py ''U'')"
    "\<not> has_key case_1_choices (py ''R'')" "\<not> has_key case_1_choices (py ''E'')"
    by (simp_all add: has_key_def case_1_choices_def py_def)
  from u k have a: "\<forall>c \<in> set (upper mock_wide_upper (strip (py ''Not sure''))).
                      \<not> has_key case_1_choices [c]"
    by (simp add: py_def)
  note t = vote_extraction [of mock_wide_upper case_1_choices "(py ''Not sure'')" "(py ''X'')" unsure_predict "(py ''d'')"
      "(py ''q'')" "(py ''o'')" "(py ''e'')"
      "\<lparr>pred_reasoning = py ''It is unclear.'', pred_vote = py ''Not sure''\<rparr>"
      "(py ''The Equity Advocate'')" "[py ''B'']" "[]"]
  from t a have n: "clean_vote mock_wide_upper case_1_choices (py ''Not sure'') = None" by blast
  from t p have "juror mock_wide_upper unsure_predict (py ''q'') case_1_choices (py ''o'') (py ''e'')
        (py ''The Equity Advocate'') (py ''d'') ([py ''B''], [])
      = ((case clean_vote mock_wide_upper case_1_choices (py ''Not sure'') of
            Some c \<Rightarrow> [py ''B''] @ [c] | None \<Rightarrow> [py ''B'']),
         [] @ [\<lparr>persona = py ''The Equity Advocate'',
                 vote = clean_vote mock_wide_upper case_1_choices (py ''Not sure''),
                 reasoning = py ''It is unclear.''\<rparr>])"
    by simp
  with n p u k show ?thesis by simp
qed

text \<open>
  C4. If no selected juror produces a valid vote, \<^verbatim>\<open>Jury.synthesize\<close> returns the
  verdict with \<^verbatim>\<open>final_verdict\<close> absent, \<^verbatim>\<open>confidence\<close> 0.0, an empty
  \<^verbatim>\<open>vote_breakdown\<close>, and the ballots of all jurors that answered as
  \<^verbatim>\<open>juror_deliberations\<close>.
\<close>

theorem no_votes_verdict:
  assumes "formatted_evidence loads repr evidence_list = Inr ev"
    and "selected_names g num_arbiters = Inr names"
    and "\<forall>b \<in> set (ballots wu predict question choices ev names). vote b = None"
  shows "synthesize loads repr wu g predict question choices evidence_list num_arbiters
         = Inr \<lparr>final_verdict = None, confidence = 0, vote_breakdown = [],
                juror_deliberations = ballots wu predict question choices ev names\<rparr>"
proof -
  from assms(3) have "cast_votes (ballots wu predict question choices ev names) = []"
    by (auto simp: cast_votes_def List.map_filter_def filter_empty_conv)
  with synthesize_eq [OF assms(1,2)] show ?thesis by (simp add: tally_empty)
qed

theorem no_votes_verdict_witness:
  "formatted_evidence mock_loads mock_repr [] = Inr ([NL] @ py '' Evidence - '')
   \<and> selected_names first_draws 3
       = Inr [py ''The Strict Textualist'', py ''The Precedent Loyalist'', py ''The Legal Realist'']
   \<and> map vote (ballots mock_wide_upper unsure_predict (py ''q'') case_1_choices ([NL] @ py '' Evidence - '')
                  [py ''The Strict Textualist'', py ''The Precedent Loyalist'',
                   (py ''The Legal Realist'')]) = [None, None, None]
   \<and> synthesize mock_loads mock_repr mock_wide_upper first_draws unsure_predict (py ''q'') case_1_choices [] 3
       = Inr \<lparr>final_verdict = None, confidence = 0, vote_breakdown = [],
              juror_deliberations =
                [\<lparr>persona = py ''The Strict Textualist'', vote = None,
                   reasoning = py ''It is unclear.''\<rparr>,
                 \<lparr>persona = py ''The Precedent Loyalist'', vote = None,
                   reasoning = py ''It is unclear.''\<rparr>,
                 \<lparr>persona = py ''The Legal Realist'', vote = None,
                   reasoning = py ''It is unclear.''\<rparr>]\<rparr>"
proof -
  have b: "ballots mock_wide_upper unsure_predict (py ''q'') case_1_choices ([NL] @ py '' Evidence - '')
             [py ''The Strict Textualist'', py ''The Precedent Loyalist'', py ''The Legal Realist'']
           = [\<lparr>persona = py ''The Strict Textualist'', vote = None,
                 reasoning = py ''It is unclear.''\<rparr>,
              \<lparr>persona = py ''The Precedent Loyalist'', vote = None,
                 reasoning = py ''It is unclear.''\<rparr>,
              \<lparr>persona = py ''The Legal Realist'', vote = None,
                 reasoning = py ''It is unclear.''\<rparr>]"
    by code_simp
  then have a: "\<forall>b \<in> set (ballots mock_wide_upper unsure_predict (py ''q'') case_1_choices ([NL] @ py '' Evidence - '')
                     [py ''The Strict Textualist'', py ''The Precedent Loyalist'',
                      (py ''The Legal Realist'')]). vote b = None"
    by simp
  from no_votes_verdict [OF mock_evidence_empty mock_selection_3 a] b
    mock_evidence_empty mock_selection_3
  show ?thesis by simp
qed

text \<open>
  C5 (as stated, refuted by the next theorem).  The claim is made for every value of
  \<^verbatim>\<open>num_arbiters\<close>; for \<^verbatim>\<open>num_arbiters = -1\<close> the sample size \<^verbatim>\<open>min(-1, 5)\<close> is negative,
  \<^verbatim>\<open>random.sample\<close> raises \<^verbatim>\<open>ValueError\<close>, no name is selected and the call raises.
\<close>

theorem jury_selection_counterexample:
  "selected_names first_draws (- 1) = Inl ValueError
   \<and> synthesize mock_loads mock_repr mock_wide_upper first_draws mock_predict (py ''q'') case_1_choices [] (- 1)
       = Inl ValueError"
  by code_simp

text \<open>
  C5 (amended).  The registry has exactly 5 personas with distinct names, and for every
  \<^verbatim>\<open>num_arbiters\<close> that is not negative and every state of the random generator the
  selection returns exactly \<^verbatim>\<open>min(num_arbiters, 5)\<close> names of the registry, no name
  twice; the personas of the ballots of a returned verdict are among them, none twice.
\<close>

theorem jury_selection:
  "length available_keys = 5 \<and> distinct available_keys
   \<and> (0 \<le> num_arbiters \<longrightarrow>
        (\<exists>names. selected_names g num_arbiters = Inr names
           \<and> int (length names) = min num_arbiters 5
           \<and> distinct names
           \<and> set names \<subseteq> set available_keys))
   \<and> (synthesize loads repr wu g predict question choices evidence_list num_arbiters = Inr v \<longrightarrow>
        (\<exists>names. selected_names g num_arbiters = Inr names
           \<and> distinct (map persona (juror_deliberations v))
           \<and> set (map persona (juror_deliberations v)) \<subseteq> set names))"
proof -
  have a: "0 \<le> num_arbiters \<longrightarrow>
        (\<exists>names. selected_names g num_arbiters = Inr names
           \<and> int (length names) = min num_arbiters 5
           \<and> distinct names
           \<and> set names \<subseteq> set available_keys)"
  proof
    assume n: "0 \<le> num_arbiters"
    from selected_names_ok [OF n, of g] obtain names where
      s: "selected_names g num_arbiters = Inr names" "length names = nat (min num_arbiters 5)"
        "distinct names" "set names \<subseteq> set available_keys"
      by blast
    from s(2) n have "int (length names) = min num_arbiters 5" by simp
    with s show "\<exists>names. selected_names g num_arbiters = Inr names
           \<and> int (length names) = min num_arbiters 5
           \<and> distinct names
           \<and> set names \<subseteq> set available_keys"
      by blast
  qed
  have b: "synthesize loads repr wu g predict question choices evidence_list num_arbiters = Inr v \<longrightarrow>
        (\<exists>names. selected_names g num_arbiters = Inr names
           \<and> distinct (map persona (juror_deliberations v))
           \<and> set (map persona (juror_deliberations v)) \<subseteq> set names)"
  proof
    assume r: "synthesize loads repr wu g predict question choices evidence_list num_arbiters = Inr v"
    from synthesize_InrD [OF r] obtain ev names where
      s: "selected_names g num_arbiters = Inr names"
      and t: "tally (cast_votes (ballots wu predict question choices ev names))
                    (ballots wu predict question choices ev names) = Inr v"
      by blast
    from tally_logs [OF t]
    have l: "map persona (juror_deliberations v)
             = filter (\<lambda>name. \<exists>desc (pred :: prediction). map_of LEGAL_PERSONAS name = Some desc
                  \<and> predict desc question (options_text choices) ev = Inr pred) names"
      by (simp add: persona_ballots)
    from selected_names_InrD [OF s] have "distinct names" by simp
    then have "distinct (map persona (juror_deliberations v))"
      "set (map persona (juror_deliberations v)) \<subseteq> set names"
      unfolding l by auto
    with s show "\<exists>names. selected_names g num_arbiters = Inr names
           \<and> distinct (map persona (juror_deliberations v))
           \<and> set (map persona (juror_deliberations v)) \<subseteq> set names"
      by blast
  qed
  from a b length_available_keys distinct_available_keys show ?thesis by blast
qed

theorem jury_selection_witness:
  "(0 :: int) \<le> 3
   \<and> selected_names first_draws 3
       = Inr [py ''The Strict Textualist'', py ''The Precedent Loyalist'', py ''The Legal Realist'']
   \<and> int (length [py ''The Strict Textualist'', py ''The Precedent Loyalist'',
                    (py ''The Legal Realist'')]) = min 3 5
   \<and> distinct [py ''The Strict Textualist'', py ''The Precedent Loyalist'', py ''The Legal Realist'']
   \<and> set [py ''The Strict Textualist'', py ''The Precedent Loyalist'', py ''The Legal Realist'']
       \<subseteq> set available_keys
   \<and> synthesize mock_loads mock_repr mock_wide_upper first_draws mock_predict (py ''q'') case_1_choices [] 3
       = Inr mock_verdict_3
   \<and> map persona (juror_deliberations mock_verdict_3)
       = [py ''The Strict Textualist'', py ''The Precedent Loyalist'', py ''The Legal Realist'']"
proof -
  have p: "map persona (juror_deliberations mock_verdict_3)
       = [py ''The Strict Textualist'', py ''The Precedent Loyalist'', py ''The Legal Realist'']"
    by (simp add: mock_verdict_3_def mock_ballots_3_def)
  from jury_selection [of 3 first_draws mock_loads mock_repr mock_wide_upper mock_predict "(py ''q'')"
      case_1_choices "[]" mock_verdict_3]
  have "\<exists>names. selected_names first_draws 3 = Inr names
           \<and> int (length names) = min 3 5
           \<and> distinct names
           \<and> set names \<subseteq> set available_keys"
    by simp
  then have "int (length [py ''The Strict Textualist'', py ''The Precedent Loyalist'',
                          (py ''The Legal Realist'')]) = min 3 5
     \<and> distinct [py ''The Strict Textualist'', py ''The Precedent Loyalist'', py ''The Legal Realist'']
     \<and> set [py ''The Strict Textualist'', py ''The Precedent Loyalist'', py ''The Legal Realist'']
         \<subseteq> set available_keys"
    unfolding mock_selection_3 by blast
  with p mock_selection_3 mock_trial_3 show ?thesis by simp
qed

text \<open>
  C6 (a defect of the code).  The claim that every evidence element is formatted without
  raising fails: a string element that \<^verbatim>\<open>json.loads\<close> decodes to anything but an
  object (a number, a string, a list, \<^verbatim>\<open>true\<close>, \<^verbatim>\<open>null\<close>) has no \<^verbatim>\<open>.get\<close>; the
  \<^verbatim>\<open>AttributeError\<close> is not a \<^verbatim>\<open>JSONDecodeError\<close>, is not caught, and
  \<^verbatim>\<open>Jury.synthesize\<close> raises it.  The evidence list \<^verbatim>\<open>["123"]\<close> is such an input.
\<close>

theorem non_object_json_evidence_raises:
  assumes "loads s = Inr decoded" and "\<forall>d. decoded \<noteq> PDict d"
  shows "synthesize loads repr wu g predict question choices (PStr s # rest) num_arbiters
         = Inl AttributeError"
proof -
  from assms have "evidence_content loads repr (PStr s) = Inl AttributeError"
    by (cases decoded) (simp_all add: evidence_content_def)
  then have "formatted_evidence loads repr (PStr s # rest) = Inl AttributeError"
    by (simp add: formatted_evidence_def)
  then show ?thesis by (simp add: synthesize_def)
qed

theorem non_object_json_evidence_raises_witness:
  "mock_loads (py ''123'') = Inr (PInt 123)
   \<and> synthesize mock_loads mock_repr mock_wide_upper first_draws mock_predict (py ''q'') case_1_choices
        [PStr (py ''123'')] 3 = Inl AttributeError"
proof -
  have l: "mock_loads (py ''123'') = Inr (PInt 123)" by (simp add: mock_loads_def)
  have n: "\<forall>d. PInt 123 \<noteq> PDict d" by simp
  from non_object_json_evidence_raises [of mock_loads "(py ''123'')" "PInt 123" mock_repr
      mock_wide_upper first_draws mock_predict "(py ''q'')" case_1_choices "[]" 3] l n
  show ?thesis by simp
qed

text \<open>
  C7.  With the evidence formatted and the jury selected, \<^verbatim>\<open>Jury.synthesize\<close> returns
  a verdict whichever predictor calls raise: a raising call leaves votes and transcript
  as they were, the transcript holds the ballots of exactly the selected personas whose
  call returned, in selection order, and the verdict is the tally of those ballots.
\<close>

theorem juror_failure_not_fatal:
  assumes "formatted_evidence loads repr evidence_list = Inr ev"
    and "selected_names g num_arbiters = Inr names"
  shows "\<exists>v. synthesize loads repr wu g predict question choices evidence_list num_arbiters = Inr v
           \<and> juror_deliberations v = ballots wu predict question choices ev names
           \<and> map persona (juror_deliberations v)
               = filter (\<lambda>name. \<exists>desc (pred :: prediction).
                           map_of LEGAL_PERSONAS name = Some desc
                           \<and> predict desc question (options_text choices) ev = Inr pred) names
           \<and> tally (cast_votes (juror_deliberations v)) (juror_deliberations v) = Inr v
           \<and> (\<forall>name desc e st.
                 predict desc question (options_text choices) ev = Inl e \<longrightarrow>
                 juror wu predict question choices (options_text choices) ev name desc st = st)"
proof -
  let ?bs = "ballots wu predict question choices ev names"
  from tally_total [of "cast_votes ?bs" ?bs] obtain v where
    t: "tally (cast_votes ?bs) ?bs = Inr v" by blast
  from tally_logs [OF t] have l: "juror_deliberations v = ?bs" .
  from synthesize_eq [OF assms, of wu predict question choices] t
  have s: "synthesize loads repr wu g predict question choices evidence_list num_arbiters = Inr v"
    by simp
  have p: "map persona (juror_deliberations v)
           = filter (\<lambda>name. \<exists>desc (pred :: prediction).
                       map_of LEGAL_PERSONAS name = Some desc
                       \<and> predict desc question (options_text choices) ev = Inr pred) names"
    unfolding l by (rule persona_ballots)
  have t': "tally (cast_votes (juror_deliberations v)) (juror_deliberations v) = Inr v"
    unfolding l by (rule t)
  have j: "\<forall>name desc e st.
             predict desc question (options_text choices) ev = Inl e \<longrightarrow>
             juror wu predict question choices (options_text choices) ev name desc st = st"
    by (simp add: juror_raises)
  from s l p t' j show ?thesis by blast
qed

theorem juror_failure_not_fatal_witness:
  "formatted_evidence mock_loads mock_repr [] = Inr ([NL] @ py '' Evidence - '')
   \<and> selected_names first_draws 5
       = Inr [py ''The Strict Textualist'', py ''The Precedent Loyalist'', py ''The Legal Realist'',
              (py ''The Equity Advocate''), py ''The Devil's Advocate'']
   \<and> map (\<lambda>name. ballot_of mock_wide_upper mock_predict (py ''q'') case_1_choices (options_text case_1_choices)
                    ([NL] @ py '' Evidence - '') name = None)
         [py ''The Strict Textualist'', py ''The Precedent Loyalist'', py ''The Legal Realist'',
          (py ''The Equity Advocate''), py ''The Devil's Advocate'']
       = [False, False, False, False, True]
   \<and> synthesize mock_loads mock_repr mock_wide_upper first_draws mock_predict (py ''q'') case_1_choices [] 5
       = Inr mock_verdict_5
   \<and> map persona (juror_deliberations mock_verdict_5)
       = [py ''The Strict Textualist'', py ''The Precedent Loyalist'', py ''The Legal Realist'',
          (py ''The Equity Advocate'')]
   \<and> tally (cast_votes (juror_deliberations mock_verdict_5))
        (juror_deliberations mock_verdict_5) = Inr mock_verdict_5"
proof -
  have r: "map (\<lambda>name. ballot_of mock_wide_upper mock_predict (py ''q'') case_1_choices
                    (options_text case_1_choices) ([NL] @ py '' Evidence - '') name = None)
         [py ''The Strict Textualist'', py ''The Precedent Loyalist'', py ''The Legal Realist'',
          (py ''The Equity Advocate''), py ''The Devil's Advocate'']
       = [False, False, False, False, True]"
    by code_simp
  have p: "map persona (juror_deliberations mock_verdict_5)
       = [py ''The Strict Textualist'', py ''The Precedent Loyalist'', py ''The Legal Realist'',
          (py ''The Equity Advocate'')]"
    by (simp add: mock_verdict_5_def mock_ballots_3_def)
  from juror_failure_not_fatal [OF mock_evidence_empty mock_selection_5,
      of mock_wide_upper mock_predict "(py ''q'')" case_1_choices]
  obtain v where
    "synthesize mock_loads mock_repr mock_wide_upper first_draws mock_predict (py ''q'') case_1_choices [] 5 = Inr v"
    "tally (cast_votes (juror_deliberations v)) (juror_deliberations v) = Inr v"
    by blast
  with mock_trial_5
  have "tally (cast_votes (juror_deliberations mock_verdict_5))
          (juror_deliberations mock_verdict_5) = Inr mock_verdict_5"
    by simp
  with r p mock_evidence_empty mock_selection_5 mock_trial_5 show ?thesis by simp
qed




section \<open>The claims about the advocate\<close>

text \<open>
  C8. Without a reasoning agent (\<^verbatim>\<open>self.react_agent\<close> is \<^verbatim>\<open>None\<close>),
  \<^verbatim>\<open>AdvocateAgent.retrieve\<close> returns the empty list, for every hypothesis and every
  \<^verbatim>\<open>k\<close>; the model has no branch in which \<^verbatim>\<open>retrieve\<close> raises.
\<close>

theorem retrieve_without_agent:
  "retrieve repr None hypothesis k = []"
  by (simp add: retrieve_def)

text \<open>
  C9 (as stated, refuted by the next theorem).  \<^verbatim>\<open>passages[:k]\<close> with a negative \<^verbatim>\<open>k\<close>
  drops the last passages instead of bounding the list: of three passages,
  \<^verbatim>\<open>k = -1\<close> returns two, which is not at most \<^verbatim>\<open>k\<close> items.
\<close>

theorem retrieve_bound_counterexample:
  "retrieve mock_repr (Some mock_agent) (py ''h'') (- 1)
     = [\<lparr>item_text = PStr (py ''first passage''), item_source = py ''dspy_react'', item_score = 1\<rparr>,
        \<lparr>item_text = PStr (py ''second passage''), item_source = py ''dspy_react'', item_score = 1\<rparr>]
   \<and> \<not> int (length (retrieve mock_repr (Some mock_agent) (py ''h'') (- 1))) \<le> - 1"
  by code_simp

text \<open>
  C9 (amended).  When the reasoning agent returns evidence, \<^verbatim>\<open>AdvocateAgent.retrieve\<close>
  returns at most \<^verbatim>\<open>k\<close> items for every \<^verbatim>\<open>k\<close> that is not negative; every item has the
  source tag \<^verbatim>\<open>dspy_react\<close> and the score 1.0; evidence that is one string is cut at
  the newlines (the pieces joined by newlines are the string, no piece holds a newline),
  the pieces made of whitespace only are dropped, and the texts of the items are the
  first passages \<^verbatim>\<open>passages[:k]\<close>; evidence that is a list gives its first elements.
\<close>

theorem retrieve_evidence:
  assumes "agent hypothesis = Inr evidence"
  shows "(0 \<le> k \<longrightarrow> int (length (retrieve repr (Some agent) hypothesis k)) \<le> k)
       \<and> (\<forall>it \<in> set (retrieve repr (Some agent) hypothesis k).
             item_source it = (py ''dspy_react'') \<and> item_score it = 1)
       \<and> (\<forall>s. evidence = PStr s \<longrightarrow>
             map item_text (retrieve repr (Some agent) hypothesis k)
               = map PStr (py_slice_to
                   (filter (\<lambda>p. \<exists>c \<in> set p. \<not> is_space c) (split_on NL s)) k)
             \<and> join [NL] (split_on NL s) = s
             \<and> (\<forall>p \<in> set (split_on NL s). NL \<notin> set p))
       \<and> (\<forall>l. evidence = PList l \<longrightarrow>
             map item_text (retrieve repr (Some agent) hypothesis k) = py_slice_to l k)"
proof -
  define passages where "passages =
     (case evidence of
        PStr s \<Rightarrow> map PStr (filter (\<lambda>p. strip p \<noteq> []) (split_on NL s))
      | PList l \<Rightarrow> l
      | _ \<Rightarrow> [PStr (py_str repr evidence)])"
  have r: "retrieve repr (Some agent) hypothesis k =
      map (\<lambda>p. \<lparr>item_text = p, item_source = py ''dspy_react'', item_score = 1\<rparr>)
        (py_slice_to passages k)"
    using assms by (simp add: retrieve_def passages_def)
  have texts: "map item_text (retrieve repr (Some agent) hypothesis k) = py_slice_to passages k"
    unfolding r by (simp add: comp_def)
  have a: "0 \<le> k \<longrightarrow> int (length (retrieve repr (Some agent) hypothesis k)) \<le> k"
    unfolding r using length_py_slice_to [of k passages] by simp
  have b: "\<forall>it \<in> set (retrieve repr (Some agent) hypothesis k).
             item_source it = (py ''dspy_react'') \<and> item_score it = 1"
    unfolding r by auto
  have flt: "filter (\<lambda>p. strip p \<noteq> []) xs = filter (\<lambda>p. \<exists>c \<in> set p. \<not> is_space c) xs" for xs
    by (simp add: strip_eq_Nil)
  have sl: "py_slice_to (map PStr xs) k = map PStr (py_slice_to xs k)" for xs
    by (simp add: py_slice_to_def take_map)
  have c: "\<forall>s. evidence = PStr s \<longrightarrow>
             map item_text (retrieve repr (Some agent) hypothesis k)
               = map PStr (py_slice_to
                   (filter (\<lambda>p. \<exists>c \<in> set p. \<not> is_space c) (split_on NL s)) k)
             \<and> join [NL] (split_on NL s) = s
             \<and> (\<forall>p \<in> set (split_on NL s). NL \<notin> set p)"
    unfolding texts by (auto simp: passages_def flt sl join_split_on split_on_no_sep)
  have d: "\<forall>l. evidence = PList l \<longrightarrow>
             map item_text (retrieve repr (Some agent) hypothesis k) = py_slice_to l k"
    unfolding texts by (simp add: passages_def)
  from a b c d show ?thesis by blast
qed

theorem retrieve_evidence_witness:
  "mock_agent (py ''h'')
     = Inr (PStr (py ''first passage'' @ [NL] @ py ''   '' @ [NL] @ py ''second passage'' @ [NL]
                  @ py ''third''))
   \<and> (0 :: int) \<le> 2
   \<and> retrieve mock_repr (Some mock_agent) (py ''h'') 2
       = [\<lparr>item_text = PStr (py ''first passage''), item_source = py ''dspy_react'', item_score = 1\<rparr>,
          \<lparr>item_text = PStr (py ''second passage''), item_source = py ''dspy_react'', item_score = 1\<rparr>]
   \<and> int (length (retrieve mock_repr (Some mock_agent) (py ''h'') 2)) \<le> 2"
proof -
  have m: "mock_agent (py ''h'')
     = Inr (PStr (py ''first passage'' @ [NL] @ py ''   '' @ [NL] @ py ''second passage'' @ [NL]
                  @ py ''third''))"
    by (simp add: mock_agent_def)
  have e: "retrieve mock_repr (Some mock_agent) (py ''h'') 2
       = [\<lparr>item_text = PStr (py ''first passage''), item_source = py ''dspy_react'', item_score = 1\<rparr>,
          \<lparr>item_text = PStr (py ''second passage''), item_source = py ''dspy_react'', item_score = 1\<rparr>]"
    by code_simp
  note t = retrieve_evidence [of mock_agent "(py ''h'')"
      "PStr (py ''first passage'' @ [NL] @ py ''   '' @ [NL] @ py ''second passage'' @ [NL] @ py ''third'')"
      2 mock_repr, OF m, THEN conjunct1]
  then have b: "int (length (retrieve mock_repr (Some mock_agent) (py ''h'') 2)) \<le> 2"
    by (simp only: order_refl zero_le_numeral simp_thms)
  from m e b show ?thesis by (simp only: simp_thms zero_le_numeral)
qed

end
